theory Spec2Isabelle
  imports Main "HOL-Library.Word"
begin

unbundle bit_operations_syntax

section \<open>Python values and exceptions\<close>

text \<open>
  A shallow embedding of \<^verbatim>\<open>table.py\<close> and \<^verbatim>\<open>scr.py\<close>. A Python function that may
  raise returns \<open>py_error + 'a\<close>, \<open>Inl\<close> carrying the exception class. Python integers
  are \<open>int\<close>, a bytes object is a list of 8-bit words, a unicode string produced by
  decoding is a list of code points, and identifiers and dictionary keys that the code
  compares with ASCII literals are \<open>string\<close>.
\<close>

type_synonym byte = "8 word"
type_synonym bytes = "byte list"
type_synonym ustr = "nat list"

datatype py_error =
    KeyError | ValueError | TypeError | AttributeError
  | StructError | UnicodeDecodeError | UnicodeEncodeError | UnsupportedSCRError
  | NotModelled

datatype pyval = PInt int | PBytes bytes | PStr ustr | PFloat "32 word"

definition bind_err :: "py_error + 'a \<Rightarrow> ('a \<Rightarrow> py_error + 'b) \<Rightarrow> py_error + 'b" where
  "bind_err m f = (case m of Inl e \<Rightarrow> Inl e | Inr x \<Rightarrow> f x)"

definition ascii :: "string \<Rightarrow> ustr" where
  "ascii s = map of_char s"

definition startswith :: "string \<Rightarrow> string \<Rightarrow> bool" where
  "startswith s p = (take (length p) s = p)"

subsection \<open>\<^verbatim>\<open>format(n)\<close> of an integer: its decimal numeral\<close>

definition digit_char :: "nat \<Rightarrow> char" where
  "digit_char d = ''0123456789'' ! d"

fun digits :: "nat \<Rightarrow> string" where
  "digits n = (if n < 10 then [digit_char n] else digits (n div 10) @ [digit_char (n mod 10)])"

declare digits.simps [simp del]

definition format_int :: "int \<Rightarrow> string" where
  "format_int i = (if i < 0 then CHR ''-'' # digits (nat (- i)) else digits (nat i))"

section \<open>The \<^verbatim>\<open>struct\<close> module\<close>

text \<open>
  \<^verbatim>\<open>Struct(fmt)\<close> as CPython 3 compiles a format string, on a 64-bit little-endian
  platform on which every native type is aligned to its size (x86-64 and AArch64 with
  Linux or macOS). The first character may select the mode: \<^verbatim>\<open><\<close> is little-endian,
  \<^verbatim>\<open>>\<close> and \<^verbatim>\<open>!\<close> are big-endian, \<^verbatim>\<open>=\<close> is the byte order of the platform, all three with
  standard sizes and no alignment; \<^verbatim>\<open>@\<close>, and a format without such a character, use the
  native sizes and alignment. Then follow items, each an optional decimal count and a
  format character; white space between items is skipped. A count in front of \<^verbatim>\<open>s\<close> or
  \<^verbatim>\<open>p\<close> is a byte length, in front of another character a repetition.

  \<^verbatim>\<open>struct.error\<close> is raised for a character that is no format character of the mode
  (the null character among them), for a count with no format character after it, and
  when the total size exceeds \<^verbatim>\<open>sys.maxsize\<close>; a character outside ASCII raises
  \<^verbatim>\<open>UnicodeEncodeError\<close>.
\<close>

datatype byteorder = LittleEndian | BigEndian

record pystruct =
  st_format :: string
  st_order :: byteorder
  st_native :: bool
  st_items :: "(nat \<times> char) list"

definition is_ascii :: "char \<Rightarrow> bool" where
  "is_ascii c = ((of_char c :: nat) < 128)"

definition is_space :: "char \<Rightarrow> bool" where
  "is_space c = ((of_char c :: nat) \<in> set [9, 10, 11, 12, 13, 32])"

definition is_digit :: "char \<Rightarrow> bool" where
  "is_digit c = (c \<in> set ''0123456789'')"

definition digit_val :: "char \<Rightarrow> nat" where
  "digit_val c = of_char c - 48"

text \<open>The size in bytes of one value of each format character, per mode.\<close>

definition std_size :: "char \<Rightarrow> nat option" where
  "std_size = map_of
     [(CHR ''x'', 1), (CHR ''c'', 1), (CHR ''b'', 1), (CHR ''B'', 1), (CHR ''?'', 1),
      (CHR ''h'', 2), (CHR ''H'', 2), (CHR ''i'', 4), (CHR ''I'', 4), (CHR ''l'', 4),
      (CHR ''L'', 4), (CHR ''q'', 8), (CHR ''Q'', 8), (CHR ''e'', 2), (CHR ''f'', 4),
      (CHR ''d'', 8), (CHR ''s'', 1), (CHR ''p'', 1)]"

definition native_size :: "char \<Rightarrow> nat option" where
  "native_size = map_of
     [(CHR ''x'', 1), (CHR ''c'', 1), (CHR ''b'', 1), (CHR ''B'', 1), (CHR ''?'', 1),
      (CHR ''h'', 2), (CHR ''H'', 2), (CHR ''i'', 4), (CHR ''I'', 4), (CHR ''l'', 8),
      (CHR ''L'', 8), (CHR ''q'', 8), (CHR ''Q'', 8), (CHR ''n'', 8), (CHR ''N'', 8),
      (CHR ''e'', 2), (CHR ''f'', 4), (CHR ''d'', 8), (CHR ''s'', 1), (CHR ''p'', 1),
      (CHR ''P'', 8)]"

definition size_table :: "bool \<Rightarrow> char \<Rightarrow> nat option" where
  "size_table native = (if native then native_size else std_size)"

definition code_size :: "bool \<Rightarrow> char \<Rightarrow> nat" where
  "code_size native c = (case size_table native c of Some k \<Rightarrow> k | None \<Rightarrow> 0)"

text \<open>
  In native mode a value other than a byte, a character, a boolean or a string starts at
  a multiple of its size; the padding is put in front of the item, also in front of an
  item with the count 0.
\<close>

definition code_align :: "bool \<Rightarrow> char \<Rightarrow> nat" where
  "code_align native c =
     (if native \<and> c \<notin> set ''xcbB?sp'' then max 1 (code_size native c) else 1)"

definition align_to :: "nat \<Rightarrow> nat \<Rightarrow> nat" where
  "align_to a k = ((a + k - 1) div k) * k"

definition item_size :: "bool \<Rightarrow> nat \<times> char \<Rightarrow> nat" where
  "item_size native it = fst it * code_size native (snd it)"

text \<open>The first byte of each item and the first byte after it, from the position \<open>a\<close>.\<close>

fun item_spans :: "bool \<Rightarrow> nat \<Rightarrow> (nat \<times> char) list \<Rightarrow> (nat \<times> nat) list" where
  "item_spans native a [] = []"
| "item_spans native a (it # its) =
     (align_to a (code_align native (snd it)),
      align_to a (code_align native (snd it)) + item_size native it)
     # item_spans native (align_to a (code_align native (snd it)) + item_size native it) its"

fun layout_end :: "bool \<Rightarrow> nat \<Rightarrow> (nat \<times> char) list \<Rightarrow> nat" where
  "layout_end native a [] = a"
| "layout_end native a (it # its) =
     layout_end native (align_to a (code_align native (snd it)) + item_size native it) its"

definition struct_size :: "pystruct \<Rightarrow> nat" where
  "struct_size st = layout_end (st_native st) 0 (st_items st)"

definition ssize_t_max :: int where
  "ssize_t_max = 9223372036854775807"

fun parse_items ::
    "(char \<Rightarrow> nat option) \<Rightarrow> nat option \<Rightarrow> string \<Rightarrow> py_error + (nat \<times> char) list" where
  "parse_items tbl cnt [] = (case cnt of None \<Rightarrow> Inr [] | Some n \<Rightarrow> Inl StructError)"
| "parse_items tbl cnt (c # cs) =
     (if is_digit c then
        parse_items tbl (Some ((case cnt of None \<Rightarrow> 0 | Some n \<Rightarrow> n) * 10 + digit_val c)) cs
      else if cnt = None \<and> is_space c then parse_items tbl None cs
      else if tbl c \<noteq> None then
        bind_err (parse_items tbl None cs)
          (\<lambda>rest. Inr (((case cnt of None \<Rightarrow> 1 | Some n \<Rightarrow> n), c) # rest))
      else Inl StructError)"

text \<open>The mode that the first character selects, and the rest of the format.\<close>

definition whichtable :: "string \<Rightarrow> byteorder \<times> bool \<times> string" where
  "whichtable fmt =
     (case fmt of
        [] \<Rightarrow> (LittleEndian, True, [])
      | c # cs \<Rightarrow>
          if c = CHR ''<'' then (LittleEndian, False, cs)
          else if c = CHR ''>'' \<or> c = CHR ''!'' then (BigEndian, False, cs)
          else if c = CHR ''='' then (LittleEndian, False, cs)
          else if c = CHR ''@'' then (LittleEndian, True, cs)
          else (LittleEndian, True, fmt))"

definition Struct :: "string \<Rightarrow> py_error + pystruct" where
  "Struct fmt =
     (if \<not> list_all is_ascii fmt then Inl UnicodeEncodeError
      else
        (case whichtable fmt of
           (ord, native, rest) \<Rightarrow>
             bind_err (parse_items (size_table native) None rest)
               (\<lambda>its. if ssize_t_max < int (layout_end native 0 its) then Inl StructError
                      else Inr \<lparr>st_format = fmt, st_order = ord, st_native = native,
                                st_items = its\<rparr>)))"

text \<open>\<^verbatim>\<open>calcsize(fmt)\<close> of the module: the size of \<^verbatim>\<open>Struct(fmt)\<close>.\<close>

definition calcsize :: "string \<Rightarrow> py_error + nat" where
  "calcsize fmt = bind_err (Struct fmt) (\<lambda>st. Inr (struct_size st))"

text \<open>
  \<^verbatim>\<open>unpack\<close>. Integers are read in the byte order of the struct; a float of four bytes is
  kept as its bit pattern; \<^verbatim>\<open>s\<close> gives one bytes object per item, \<^verbatim>\<open>c\<close> one per
  repetition, \<^verbatim>\<open>x\<close> no value. The values of \<^verbatim>\<open>?\<close>, \<^verbatim>\<open>e\<close>, \<^verbatim>\<open>d\<close> and \<^verbatim>\<open>p\<close> are outside the
  model.
\<close>

fun le_int :: "bytes \<Rightarrow> int" where
  "le_int [] = 0"
| "le_int (b # bs) = uint b + 256 * le_int bs"

definition bytes_int :: "byteorder \<Rightarrow> bytes \<Rightarrow> int" where
  "bytes_int ord bs = (case ord of LittleEndian \<Rightarrow> le_int bs | BigEndian \<Rightarrow> le_int (rev bs))"

definition is_signed :: "char \<Rightarrow> bool" where
  "is_signed c = (c \<in> set ''bhilqn'')"

definition unmodelled_code :: "char \<Rightarrow> bool" where
  "unmodelled_code c = (c \<in> set ''?edp'')"

definition unpack_value :: "byteorder \<Rightarrow> char \<Rightarrow> bytes \<Rightarrow> pyval" where
  "unpack_value ord c bs =
     (if c = CHR ''f'' then PFloat (word_of_int (bytes_int ord bs))
      else if c = CHR ''c'' then PBytes bs
      else if is_signed c \<and> 2 ^ (8 * length bs - 1) \<le> bytes_int ord bs
        then PInt (bytes_int ord bs - 2 ^ (8 * length bs))
      else PInt (bytes_int ord bs))"

fun unpack_rep :: "byteorder \<Rightarrow> char \<Rightarrow> nat \<Rightarrow> nat \<Rightarrow> bytes \<Rightarrow> pyval list" where
  "unpack_rep ord c k 0 bs = []"
| "unpack_rep ord c k (Suc n) bs = unpack_value ord c (take k bs) # unpack_rep ord c k n (drop k bs)"

fun unpack_layout ::
    "byteorder \<Rightarrow> bool \<Rightarrow> nat \<Rightarrow> (nat \<times> char) list \<Rightarrow> bytes \<Rightarrow> pyval list" where
  "unpack_layout ord native a [] bs = []"
| "unpack_layout ord native a ((n, c) # its) bs =
     (if c = CHR ''s'' then [PBytes (take n (drop (align_to a (code_align native c)) bs))]
      else if c = CHR ''x'' then []
      else unpack_rep ord c (code_size native c) n (drop (align_to a (code_align native c)) bs))
     @ unpack_layout ord native
         (align_to a (code_align native c) + item_size native (n, c)) its bs"

text \<open>The items of a struct without alignment, read from the first byte.\<close>

definition unpack_items :: "byteorder \<Rightarrow> (nat \<times> char) list \<Rightarrow> bytes \<Rightarrow> pyval list" where
  "unpack_items ord its bs = unpack_layout ord False 0 its bs"

definition unpack :: "pystruct \<Rightarrow> bytes \<Rightarrow> py_error + pyval list" where
  "unpack st bs =
     (if length bs \<noteq> struct_size st then Inl StructError
      else if list_ex (\<lambda>it. unmodelled_code (snd it)) (st_items st) then Inl NotModelled
      else Inr (unpack_layout (st_order st) (st_native st) 0 (st_items st) bs))"

text \<open>
  \<^verbatim>\<open>pack\<close>: one argument per \<^verbatim>\<open>s\<close> item and per repetition of any other item but \<^verbatim>\<open>x\<close>;
  padding and \<^verbatim>\<open>x\<close> are null bytes.
\<close>

definition int_bytes :: "byteorder \<Rightarrow> nat \<Rightarrow> int \<Rightarrow> bytes" where
  "int_bytes ord k n =
     (case ord of
        LittleEndian \<Rightarrow> map (\<lambda>i. word_of_int (n div 256 ^ i)) [0..<k]
      | BigEndian \<Rightarrow> rev (map (\<lambda>i. word_of_int (n div 256 ^ i)) [0..<k]))"

definition pack_value :: "byteorder \<Rightarrow> char \<Rightarrow> nat \<Rightarrow> pyval \<Rightarrow> py_error + bytes" where
  "pack_value ord c k v =
     (if c = CHR ''f'' then
        (case v of PFloat w \<Rightarrow> Inr (int_bytes ord k (uint w))
         | PInt i \<Rightarrow> Inl NotModelled
         | _ \<Rightarrow> Inl StructError)
      else if c = CHR ''c'' then
        (case v of PBytes bs \<Rightarrow> if length bs = 1 then Inr bs else Inl StructError
         | _ \<Rightarrow> Inl StructError)
      else
        (case v of
           PInt i \<Rightarrow>
             if is_signed c then
               (if - (2 ^ (8 * k - 1)) \<le> i \<and> i < 2 ^ (8 * k - 1)
                then Inr (int_bytes ord k (i mod 2 ^ (8 * k))) else Inl StructError)
             else
               (if 0 \<le> i \<and> i < 2 ^ (8 * k)
                then Inr (int_bytes ord k i) else Inl StructError)
         | _ \<Rightarrow> Inl StructError))"

fun pack_rep :: "byteorder \<Rightarrow> char \<Rightarrow> nat \<Rightarrow> nat \<Rightarrow> pyval list \<Rightarrow> py_error + bytes \<times> pyval list" where
  "pack_rep ord c k 0 vs = Inr ([], vs)"
| "pack_rep ord c k (Suc n) [] = Inl StructError"
| "pack_rep ord c k (Suc n) (v # vs) =
     bind_err (pack_value ord c k v)
       (\<lambda>bs. bind_err (pack_rep ord c k n vs) (\<lambda>(cs, rest). Inr (bs @ cs, rest)))"

fun pack_layout ::
    "byteorder \<Rightarrow> bool \<Rightarrow> nat \<Rightarrow> (nat \<times> char) list \<Rightarrow> pyval list \<Rightarrow> py_error + bytes" where
  "pack_layout ord native a [] vs = (if vs = [] then Inr [] else Inl StructError)"
| "pack_layout ord native a ((n, c) # its) vs =
     bind_err
       (if c = CHR ''s'' then
          (case vs of
             [] \<Rightarrow> Inl StructError
           | v # rest \<Rightarrow>
               (case v of
                  PBytes bs \<Rightarrow> Inr (take n (bs @ replicate n 0), rest)
                | _ \<Rightarrow> Inl StructError))
        else if c = CHR ''x'' then Inr (replicate n 0, vs)
        else pack_rep ord c (code_size native c) n vs)
       (\<lambda>(bs, rest).
          bind_err (pack_layout ord native
                      (align_to a (code_align native c) + item_size native (n, c)) its rest)
            (\<lambda>cs. Inr (replicate (align_to a (code_align native c) - a) 0 @ bs @ cs)))"

definition pack :: "pystruct \<Rightarrow> pyval list \<Rightarrow> py_error + bytes" where
  "pack st vs =
     (if list_ex (\<lambda>it. unmodelled_code (snd it)) (st_items st) then Inl NotModelled
      else pack_layout (st_order st) (st_native st) 0 (st_items st) vs)"

section \<open>\<^verbatim>\<open>collections.namedtuple\<close>: the check of the field names\<close>

text \<open>
  \<^verbatim>\<open>namedtuple('Row', columns)\<close> raises \<^verbatim>\<open>ValueError\<close> for a field name that is not an
  identifier, is a keyword, starts with an underscore or occurs twice. For ASCII names
  an identifier is a letter or an underscore followed by letters, digits and underscores.
  A name with a character outside ASCII is outside the model.
\<close>

definition is_alpha :: "char \<Rightarrow> bool" where
  "is_alpha c = ((65 \<le> (of_char c :: nat) \<and> (of_char c :: nat) \<le> 90)
                 \<or> (97 \<le> (of_char c :: nat) \<and> (of_char c :: nat) \<le> 122))"

definition isidentifier :: "string \<Rightarrow> bool" where
  "isidentifier s =
     (case s of
        [] \<Rightarrow> False
      | c # cs \<Rightarrow> (is_alpha c \<or> c = CHR ''_'')
                 \<and> list_all (\<lambda>d. is_alpha d \<or> is_digit d \<or> d = CHR ''_'') cs)"

definition kwlist :: "string list" where
  "kwlist = [''False'', ''None'', ''True'', ''and'', ''as'', ''assert'', ''async'', ''await'',
     ''break'', ''class'', ''continue'', ''def'', ''del'', ''elif'', ''else'', ''except'',
     ''finally'', ''for'', ''from'', ''global'', ''if'', ''import'', ''in'', ''is'', ''lambda'',
     ''nonlocal'', ''not'', ''or'', ''pass'', ''raise'', ''return'', ''try'', ''while'', ''with'',
     ''yield'']"

definition field_name_ok :: "string \<Rightarrow> bool" where
  "field_name_ok n = (isidentifier n \<and> n \<notin> set kwlist \<and> \<not> startswith n ''_'')"

definition namedtuple :: "string list \<Rightarrow> py_error + string list" where
  "namedtuple field_names =
     (if \<not> list_all (list_all is_ascii) field_names then Inl NotModelled
      else if list_all field_name_ok field_names \<and> distinct field_names
      then Inr field_names else Inl ValueError)"

section \<open>\<^verbatim>\<open>table.py\<close>: the schema compiler \<^verbatim>\<open>newrowclass\<close>\<close>

text \<open>
  A column descriptor is a JSON object; the keys \<^verbatim>\<open>name\<close>, \<^verbatim>\<open>type\<close> and \<^verbatim>\<open>offset\<close> are
  always present, \<^verbatim>\<open>columns\<close> (the bit sub-fields) and \<^verbatim>\<open>enum\<close> (the label table, keyed
  by the decimal numeral of the raw value) may be absent, and reading an absent key
  raises \<^verbatim>\<open>KeyError\<close>. The key \<^verbatim>\<open>endianess\<close> of the table description, when present,
  is a string, and \<^verbatim>\<open>newrowclass\<close> puts it unchanged in front of the format. The \<^verbatim>\<open>format\<close>
  keys are read by \<^verbatim>\<open>totext\<close> only and are left out.
\<close>

record bitcolumn =
  b_name :: string
  b_offset :: int
  b_length :: int

record column =
  c_name :: string
  c_type :: string
  c_offset :: int
  c_columns :: "bitcolumn list option"
  c_enum :: "(string \<times> pyval) list option"

record tableinfo =
  ti_endianess :: "string option"
  ti_row_length :: int
  ti_columns :: "column list"

text \<open>
  An entry of \<^verbatim>\<open>Row.columns\<close> is a declared column or the dictionary
  \<^verbatim>\<open>{'type': 'gap'}\<close>, which has no other key.
\<close>

datatype colinfo = Col column | Gap

definition info_type :: "colinfo \<Rightarrow> string" where
  "info_type info = (case info of Col c \<Rightarrow> c_type c | Gap \<Rightarrow> ''gap'')"

definition info_name :: "colinfo \<Rightarrow> py_error + string" where
  "info_name info = (case info of Col c \<Rightarrow> Inr (c_name c) | Gap \<Rightarrow> Inl KeyError)"

definition col_columns :: "column \<Rightarrow> py_error + bitcolumn list" where
  "col_columns c = (case c_columns c of None \<Rightarrow> Inl KeyError | Some bcs \<Rightarrow> Inr bcs)"

definition info_columns :: "colinfo \<Rightarrow> py_error + bitcolumn list" where
  "info_columns info = (case info of Col c \<Rightarrow> col_columns c | Gap \<Rightarrow> Inl KeyError)"

definition info_enum :: "colinfo \<Rightarrow> py_error + (string \<times> pyval) list" where
  "info_enum info =
     (case info of
        Col c \<Rightarrow> (case c_enum c of None \<Rightarrow> Inl KeyError | Some tbl \<Rightarrow> Inr tbl)
      | Gap \<Rightarrow> Inl KeyError)"

record rowclass =
  row_fields :: "string list"
  columns :: "colinfo list"
  struct_obj :: pystruct

definition types :: "string \<Rightarrow> char option" where
  "types = map_of
     [(''s8'', CHR ''b''), (''u8'', CHR ''B''), (''s16'', CHR ''h''), (''u16'', CHR ''H''),
      (''s32'', CHR ''i''), (''u32'', CHR ''I''), (''s64'', CHR ''q''), (''u64'', CHR ''Q''),
      (''f32'', CHR ''f''), (''str'', CHR ''I''), (''ptr'', CHR ''I''), (''bit8'', CHR ''B''),
      (''bit16'', CHR ''H''), (''bit32'', CHR ''I''), (''bit64'', CHR ''Q''),
      (''enum8'', CHR ''B''), (''enum16'', CHR ''H'')]"

text \<open>The local variables of \<^verbatim>\<open>newrowclass\<close>; \<open>colnames\<close> is its list \<^verbatim>\<open>columns\<close>.\<close>

record build =
  gapstart :: int
  structstr :: string
  colnames :: "string list"
  newtableinfo :: "colinfo list"

definition add_gap :: "build \<Rightarrow> int \<Rightarrow> build" where
  "add_gap s stop =
     s\<lparr>structstr := structstr s @ format_int (stop - gapstart s) @ ''s'',
       colnames := colnames s @ [''c'' @ format_int (gapstart s)],
       newtableinfo := newtableinfo s @ [Gap]\<rparr>"

definition newrowclass_step :: "build \<Rightarrow> column \<Rightarrow> py_error + build" where
  "newrowclass_step s column =
     (let s1 = (if c_offset column > gapstart s then add_gap s (c_offset column) else s)
      in bind_err
           (if startswith (c_type column) ''bit''
            then bind_err (col_columns column)
                   (\<lambda>bcs. Inr (colnames s1 @ [c_name column] @ map b_name bcs))
            else Inr (colnames s1 @ [c_name column]))
           (\<lambda>names.
              case types (c_type column) of
                None \<Rightarrow> Inl KeyError
              | Some structchr \<Rightarrow>
                  bind_err (calcsize [structchr])
                    (\<lambda>sz. Inr \<lparr>gapstart = c_offset column + int sz,
                                structstr = structstr s1 @ [structchr],
                                colnames = names,
                                newtableinfo = newtableinfo s1 @ [Col column]\<rparr>)))"

fun newrowclass_loop :: "build \<Rightarrow> column list \<Rightarrow> py_error + build" where
  "newrowclass_loop s [] = Inr s"
| "newrowclass_loop s (column # rest) =
     bind_err (newrowclass_step s column) (\<lambda>s'. newrowclass_loop s' rest)"

definition newrowclass :: "tableinfo \<Rightarrow> py_error + rowclass" where
  "newrowclass ti =
     bind_err
       (newrowclass_loop
          \<lparr>gapstart = 0,
           structstr = (case ti_endianess ti of None \<Rightarrow> ''<'' | Some e \<Rightarrow> e),
           colnames = [], newtableinfo = []\<rparr>
          (ti_columns ti))
       (\<lambda>s. let s' = (if gapstart s < ti_row_length ti then add_gap s (ti_row_length ti) else s)
            in bind_err (namedtuple (colnames s'))
                 (\<lambda>fs. bind_err (Struct (structstr s'))
                    (\<lambda>st. Inr \<lparr>row_fields = fs, columns = newtableinfo s', struct_obj = st\<rparr>)))"

section \<open>\<^verbatim>\<open>table.py\<close>: decoding a row, \<^verbatim>\<open>feed\<close>\<close>

definition as_int :: "pyval \<Rightarrow> py_error + int" where
  "as_int v = (case v of PInt i \<Rightarrow> Inr i | _ \<Rightarrow> Inl TypeError)"

text \<open>\<^verbatim>\<open>format(element)\<close>; the elements of enum columns are integers.\<close>

definition format_val :: "pyval \<Rightarrow> py_error + string" where
  "format_val v = (case v of PInt i \<Rightarrow> Inr (format_int i) | _ \<Rightarrow> Inl NotModelled)"

text \<open>
  \<^verbatim>\<open>(element >> offset) & ((1 << length) - 1)\<close>; a negative shift count raises
  \<^verbatim>\<open>ValueError\<close>.
\<close>

definition bit_extract :: "pyval \<Rightarrow> bitcolumn \<Rightarrow> py_error + pyval" where
  "bit_extract element bc =
     bind_err (as_int element)
       (\<lambda>e. if b_offset bc < 0 \<or> b_length bc < 0 then Inl ValueError
            else Inr (PInt (drop_bit (nat (b_offset bc)) e
                             AND (push_bit (nat (b_length bc)) 1 - 1))))"

fun feed_bits :: "pyval \<Rightarrow> bitcolumn list \<Rightarrow> py_error + pyval list" where
  "feed_bits element [] = Inr []"
| "feed_bits element (bc # bcs) =
     bind_err (bit_extract element bc)
       (\<lambda>v. bind_err (feed_bits element bcs) (\<lambda>vs. Inr (v # vs)))"

type_synonym string_hook = "(pyval \<Rightarrow> py_error + pyval) option"

definition feed_column :: "string_hook \<Rightarrow> colinfo \<Rightarrow> pyval \<Rightarrow> py_error + pyval list" where
  "feed_column get_string_hook info element =
     (if info_type info = ''str'' \<and> get_string_hook \<noteq> None then
        bind_err ((the get_string_hook) element) (\<lambda>v. Inr [v])
      else if startswith (info_type info) ''bit'' then
        bind_err (info_columns info)
          (\<lambda>bcs. bind_err (feed_bits element bcs) (\<lambda>vs. Inr (element # vs)))
      else if startswith (info_type info) ''enum'' then
        bind_err (info_enum info)
          (\<lambda>tbl. bind_err (format_val element)
             (\<lambda>key. case map_of tbl key of None \<Rightarrow> Inl KeyError | Some label \<Rightarrow> Inr [label]))
      else Inr [element])"

fun feed_loop :: "string_hook \<Rightarrow> (colinfo \<times> pyval) list \<Rightarrow> py_error + pyval list" where
  "feed_loop get_string_hook [] = Inr []"
| "feed_loop get_string_hook ((info, element) # rest) =
     bind_err (feed_column get_string_hook info element)
       (\<lambda>vs. bind_err (feed_loop get_string_hook rest) (\<lambda>ws. Inr (vs @ ws)))"

text \<open>\<^verbatim>\<open>cls._make(data)\<close>: \<^verbatim>\<open>TypeError\<close> unless there is one value per field.\<close>

definition make :: "rowclass \<Rightarrow> pyval list \<Rightarrow> py_error + pyval list" where
  "make cls data = (if length data \<noteq> length (row_fields cls) then Inl TypeError else Inr data)"

definition feed :: "rowclass \<Rightarrow> bytes \<Rightarrow> string_hook \<Rightarrow> py_error + pyval list" where
  "feed cls bytes_obj get_string_hook =
     bind_err (unpack (struct_obj cls) bytes_obj)
       (\<lambda>rawdata. bind_err (feed_loop get_string_hook (zip (columns cls) rawdata)) (make cls))"

section \<open>\<^verbatim>\<open>table.py\<close>: encoding a row, \<^verbatim>\<open>tobytes\<close>\<close>

text \<open>
  \<^verbatim>\<open>tobytes\<close> reads every value through \<^verbatim>\<open>self.__getattr__(...)\<close>. Python resolves the
  attribute \<^verbatim>\<open>__getattr__\<close> on the row first, before it evaluates the argument. The row
  classes are made by \<^verbatim>\<open>namedtuple\<close>; neither they nor \<^verbatim>\<open>tuple\<close> nor \<^verbatim>\<open>object\<close> define
  \<^verbatim>\<open>__getattr__\<close> (\<^verbatim>\<open>object\<close> has \<^verbatim>\<open>__getattribute__\<close> only), and \<^verbatim>\<open>namedtuple\<close> refuses a
  field of that name, so the resolution raises \<^verbatim>\<open>AttributeError\<close>.

  The body of \<^verbatim>\<open>tobytes\<close> is \<open>tobytes_via\<close>, which takes the outcome of that resolution
  as its first argument: an exception, or the bound method. \<open>field_by_name\<close> is the
  method the code would need, the lookup of a field by its name.
\<close>

definition lookup_dunder_getattr ::
    "rowclass \<Rightarrow> pyval list \<Rightarrow> py_error + (string \<Rightarrow> py_error + pyval)" where
  "lookup_dunder_getattr cls self = Inl AttributeError"

definition field_by_name :: "rowclass \<Rightarrow> pyval list \<Rightarrow> string \<Rightarrow> py_error + pyval" where
  "field_by_name cls self n =
     (case map_of (zip (row_fields cls) self) n of
        None \<Rightarrow> Inl AttributeError
      | Some v \<Rightarrow> Inr v)"

fun tobytes_bits ::
    "(py_error + (string \<Rightarrow> py_error + pyval)) \<Rightarrow> pyval \<Rightarrow> bitcolumn list \<Rightarrow> py_error + pyval" where
  "tobytes_bits ga bitdata [] = Inr bitdata"
| "tobytes_bits ga bitdata (bc # bcs) =
     (if b_length bc < 0 \<or> b_offset bc < 0 then Inl ValueError
      else
        bind_err (as_int bitdata)
          (\<lambda>b. bind_err ga
             (\<lambda>g. bind_err (g (b_name bc))
                (\<lambda>v. bind_err (as_int v)
                   (\<lambda>vi. tobytes_bits ga
                      (PInt ((b OR push_bit (nat (b_offset bc)) (push_bit (nat (b_length bc)) 1 - 1))
                             AND push_bit (nat (b_offset bc)) vi))
                      bcs)))))"

definition tobytes_column ::
    "(py_error + (string \<Rightarrow> py_error + pyval)) \<Rightarrow> colinfo \<Rightarrow> py_error + pyval" where
  "tobytes_column ga column =
     (if startswith (info_type column) ''bit'' then
        bind_err ga
          (\<lambda>g. bind_err (info_name column)
             (\<lambda>n. bind_err (g n)
                (\<lambda>bitdata. bind_err (info_columns column) (tobytes_bits ga bitdata))))
      else bind_err ga (\<lambda>g. bind_err (info_name column) g))"

fun tobytes_loop ::
    "(py_error + (string \<Rightarrow> py_error + pyval)) \<Rightarrow> colinfo list \<Rightarrow> py_error + pyval list" where
  "tobytes_loop ga [] = Inr []"
| "tobytes_loop ga (column # rest) =
     bind_err (tobytes_column ga column)
       (\<lambda>v. bind_err (tobytes_loop ga rest) (\<lambda>vs. Inr (v # vs)))"

definition tobytes_via ::
    "(py_error + (string \<Rightarrow> py_error + pyval)) \<Rightarrow> rowclass \<Rightarrow> py_error + bytes" where
  "tobytes_via ga cls = bind_err (tobytes_loop ga (columns cls)) (pack (struct_obj cls))"

definition tobytes :: "rowclass \<Rightarrow> pyval list \<Rightarrow> py_error + bytes" where
  "tobytes cls self = tobytes_via (lookup_dunder_getattr cls self) cls"

text \<open>Decode a row and encode it again.\<close>

definition feed_tobytes :: "tableinfo \<Rightarrow> bytes \<Rightarrow> py_error + bytes" where
  "feed_tobytes ti bs =
     bind_err (newrowclass ti) (\<lambda>cls. bind_err (feed cls bs None) (tobytes cls))"

definition feed_tobytes_by_name :: "tableinfo \<Rightarrow> bytes \<Rightarrow> py_error + bytes" where
  "feed_tobytes_by_name ti bs =
     bind_err (newrowclass ti)
       (\<lambda>cls. bind_err (feed cls bs None)
          (\<lambda>self. tobytes_via (Inr (field_by_name cls self)) cls))"

section \<open>Example tables\<close>

definition plain_column :: "string \<Rightarrow> string \<Rightarrow> int \<Rightarrow> column" where
  "plain_column n t off =
     \<lparr>c_name = n, c_type = t, c_offset = off, c_columns = None, c_enum = None\<rparr>"

text \<open>One \<^verbatim>\<open>u16\<close> column filling a row of two bytes.\<close>

definition ex_u16 :: tableinfo where
  "ex_u16 = \<lparr>ti_endianess = None, ti_row_length = 2,
             ti_columns = [plain_column ''a'' ''u16'' 0]\<rparr>"

definition ex_u16_cls :: rowclass where
  "ex_u16_cls =
     \<lparr>row_fields = [''a''], columns = [Col (plain_column ''a'' ''u16'' 0)],
      struct_obj = \<lparr>st_format = ''<H'', st_order = LittleEndian, st_native = False, st_items = [(1, CHR ''H'')]\<rparr>\<rparr>"

text \<open>One \<^verbatim>\<open>u8\<close> column in a row of two bytes: the second byte is a gap.\<close>

definition ex_gap :: tableinfo where
  "ex_gap = \<lparr>ti_endianess = None, ti_row_length = 2,
             ti_columns = [plain_column ''a'' ''u8'' 0]\<rparr>"

definition ex_gap_cls :: rowclass where
  "ex_gap_cls =
     \<lparr>row_fields = [''a'', ''c1''], columns = [Col (plain_column ''a'' ''u8'' 0), Gap],
      struct_obj = \<lparr>st_format = ''<B1s'', st_order = LittleEndian, st_native = False,
                    st_items = [(1, CHR ''B''), (1, CHR ''s'')]\<rparr>\<rparr>"

text \<open>A \<^verbatim>\<open>bit8\<close> column with the sub-fields \<^verbatim>\<open>x\<close> (bits 0 to 3) and \<^verbatim>\<open>y\<close> (bits 4 to 7).\<close>

definition ex_bits_column :: column where
  "ex_bits_column =
     \<lparr>c_name = ''b'', c_type = ''bit8'', c_offset = 0,
      c_columns = Some [\<lparr>b_name = ''x'', b_offset = 0, b_length = 4\<rparr>,
                        \<lparr>b_name = ''y'', b_offset = 4, b_length = 4\<rparr>],
      c_enum = None\<rparr>"

definition ex_bits :: tableinfo where
  "ex_bits = \<lparr>ti_endianess = None, ti_row_length = 1, ti_columns = [ex_bits_column]\<rparr>"

definition ex_bits_cls :: rowclass where
  "ex_bits_cls =
     \<lparr>row_fields = [''b'', ''x'', ''y''], columns = [Col ex_bits_column],
      struct_obj = \<lparr>st_format = ''<B'', st_order = LittleEndian, st_native = False, st_items = [(1, CHR ''B'')]\<rparr>\<rparr>"

text \<open>
  One \<^verbatim>\<open>enum8\<close> column with labels for 0 and 1, its row class, and a string hook that
  returns its argument.
\<close>

definition ex_enum_column :: column where
  "ex_enum_column =
     \<lparr>c_name = ''e'', c_type = ''enum8'', c_offset = 0, c_columns = None,
      c_enum = Some [(''0'', PStr (ascii ''Zero'')), (''1'', PStr (ascii ''One''))]\<rparr>"

definition ex_enum :: tableinfo where
  "ex_enum = \<lparr>ti_endianess = None, ti_row_length = 1, ti_columns = [ex_enum_column]\<rparr>"

definition ex_enum_cls :: rowclass where
  "ex_enum_cls =
     \<lparr>row_fields = [''e''], columns = [Col ex_enum_column],
      struct_obj = \<lparr>st_format = ''<B'', st_order = LittleEndian, st_native = False, st_items = [(1, CHR ''B'')]\<rparr>\<rparr>"

definition ex_hook :: "pyval \<Rightarrow> py_error + pyval" where
  "ex_hook v = Inr v"

text \<open>A \<^verbatim>\<open>str\<close> column after a bit column; a hook that resolves every offset to \<^verbatim>\<open>Hi\<close>.\<close>

definition ex_str :: tableinfo where
  "ex_str = \<lparr>ti_endianess = None, ti_row_length = 5,
             ti_columns = [ex_bits_column, plain_column ''s'' ''str'' 1]\<rparr>"

definition ex_str_cls :: rowclass where
  "ex_str_cls =
     \<lparr>row_fields = [''b'', ''x'', ''y'', ''s''],
      columns = [Col ex_bits_column, Col (plain_column ''s'' ''str'' 1)],
      struct_obj = \<lparr>st_format = ''<BI'', st_order = LittleEndian, st_native = False,
                    st_items = [(1, CHR ''B''), (1, CHR ''I'')]\<rparr>\<rparr>"

definition ex_resolve :: "pyval \<Rightarrow> py_error + pyval" where
  "ex_resolve v = Inr (PStr (ascii ''Hi''))"

section \<open>Positions of the decoded values in a row\<close>

text \<open>
  \<^verbatim>\<open>feed\<close> appends one value per column, and one more per sub-field of a bit column:
  the first value of column \<open>i\<close> is at position \<open>data_index infos i\<close> of the row.
\<close>

definition data_width :: "colinfo \<Rightarrow> nat" where
  "data_width info =
     (if startswith (info_type info) ''bit''
      then (case info_columns info of Inr bcs \<Rightarrow> Suc (length bcs) | Inl e \<Rightarrow> 1)
      else 1)"

definition data_index :: "colinfo list \<Rightarrow> nat \<Rightarrow> nat" where
  "data_index infos i = sum_list (map data_width (take i infos))"

section \<open>The layout as the specification describes it\<close>

text \<open>
  The specification walks the columns with a cursor that starts at 0: a column whose
  offset exceeds the cursor is preceded by one gap field covering the bytes from the
  cursor to the offset; the column covers its own width from its offset; the cursor
  moves past the column; after the last column one trailing gap field covers the bytes
  up to the row length, if any are left. A field is an entry of \<^verbatim>\<open>Row.columns\<close> with the
  first byte offset it covers and the first one it does not.
\<close>

definition col_char :: "column \<Rightarrow> char" where
  "col_char c = the (types (c_type c))"

definition col_size :: "column \<Rightarrow> nat" where
  "col_size c =
     (case types (c_type c) of
        None \<Rightarrow> 0
      | Some ch \<Rightarrow> (case calcsize [ch] of Inr k \<Rightarrow> k | Inl e \<Rightarrow> 0))"

fun spec_column_fields :: "int \<Rightarrow> column list \<Rightarrow> (colinfo \<times> int \<times> int) list" where
  "spec_column_fields cursor [] = []"
| "spec_column_fields cursor (c # cs) =
     (if c_offset c > cursor then [(Gap, cursor, c_offset c)] else [])
     @ (Col c, c_offset c, c_offset c + int (col_size c))
     # spec_column_fields (c_offset c + int (col_size c)) cs"

fun spec_cursor :: "int \<Rightarrow> column list \<Rightarrow> int" where
  "spec_cursor cursor [] = cursor"
| "spec_cursor cursor (c # cs) = spec_cursor (c_offset c + int (col_size c)) cs"

definition spec_fields :: "column list \<Rightarrow> int \<Rightarrow> (colinfo \<times> int \<times> int) list" where
  "spec_fields cs row_len =
     spec_column_fields 0 cs
     @ (if spec_cursor 0 cs < row_len then [(Gap, spec_cursor 0 cs, row_len)] else [])"

text \<open>
  Columns in ascending offset order without overlap: each column starts at or after
  the cursor left by the one before it.
\<close>

fun ascending :: "int \<Rightarrow> column list \<Rightarrow> bool" where
  "ascending cursor [] = True"
| "ascending cursor (c # cs) =
     (cursor \<le> c_offset c \<and> ascending (c_offset c + int (col_size c)) cs)"

text \<open>Fields that tile a byte range: each starts where the one before it ends.\<close>

fun tiles :: "int \<Rightarrow> (colinfo \<times> int \<times> int) list \<Rightarrow> int \<Rightarrow> bool" where
  "tiles a [] b = (a = b)"
| "tiles a ((f, s, e) # r) b = (s = a \<and> s < e \<and> tiles e r b)"

text \<open>
  The format text, the struct item and the field names that belong to a field.
\<close>

definition entry_fmt :: "colinfo \<times> int \<times> int \<Rightarrow> string" where
  "entry_fmt e =
     (case e of (Gap, a, b) \<Rightarrow> format_int (b - a) @ ''s'' | (Col c, a, b) \<Rightarrow> [col_char c])"

definition entry_item :: "colinfo \<times> int \<times> int \<Rightarrow> nat \<times> char" where
  "entry_item e =
     (case e of (Gap, a, b) \<Rightarrow> (nat (b - a), CHR ''s'') | (Col c, a, b) \<Rightarrow> (1, col_char c))"

definition entry_names :: "colinfo \<times> int \<times> int \<Rightarrow> string list" where
  "entry_names e =
     (case e of
        (Gap, a, b) \<Rightarrow> [''c'' @ format_int a]
      | (Col c, a, b) \<Rightarrow>
          c_name c # (if startswith (c_type c) ''bit''
                      then (case c_columns c of Some bcs \<Rightarrow> map b_name bcs | None \<Rightarrow> [])
                      else []))"

definition layout_names :: "tableinfo \<Rightarrow> string list" where
  "layout_names ti =
     concat (map entry_names (spec_fields (ti_columns ti) (ti_row_length ti)))"

section \<open>The layout of a compiled row class\<close>

text \<open>
  \<^verbatim>\<open>unpack\<close> reads the struct items one after the other from byte 0, after the padding
  that the mode asks for, and \<^verbatim>\<open>feed\<close> pairs them with the entries of \<^verbatim>\<open>Row.columns\<close>: the
  fields of a row class are its entries with the byte ranges of the items.
\<close>

definition layout_fields :: "rowclass \<Rightarrow> (colinfo \<times> int \<times> int) list" where
  "layout_fields cls =
     zip (columns cls)
       (map (\<lambda>(s, e). (int s, int e))
          (item_spans (st_native (struct_obj cls)) 0 (st_items (struct_obj cls))))"

text \<open>
  The format string of the layout that the specification describes, behind the value of
  \<^verbatim>\<open>endianess\<close> or \<^verbatim>\<open><\<close>; and the values of \<^verbatim>\<open>endianess\<close> that select a mode without
  alignment and add no item.
\<close>

definition layout_format :: "tableinfo \<Rightarrow> string" where
  "layout_format ti =
     (case ti_endianess ti of None \<Rightarrow> ''<'' | Some e \<Rightarrow> e)
     @ concat (map entry_fmt (spec_fields (ti_columns ti) (ti_row_length ti)))"

definition standard_mode :: "tableinfo \<Rightarrow> bool" where
  "standard_mode ti =
     (case ti_endianess ti of
        None \<Rightarrow> True
      | Some e \<Rightarrow> e = ''<'' \<or> e = ''>'' \<or> e = ''='' \<or> e = ''!'')"

text \<open>
  What \<^verbatim>\<open>newrowclass\<close> needs of a column: a type of the \<^verbatim>\<open>types\<close> table and, for a bit
  type, the key \<^verbatim>\<open>columns\<close>.
\<close>

definition known_column :: "column \<Rightarrow> bool" where
  "known_column c =
     (types (c_type c) \<noteq> None \<and> (startswith (c_type c) ''bit'' \<longrightarrow> c_columns c \<noteq> None))"

definition entry_ok :: "colinfo \<times> int \<times> int \<Rightarrow> bool" where
  "entry_ok e = (case e of (Gap, a, b) \<Rightarrow> a < b | (Col c, a, b) \<Rightarrow> known_column c)"

definition entry_sized :: "colinfo \<times> int \<times> int \<Rightarrow> bool" where
  "entry_sized e =
     (case e of
        (Gap, a, b) \<Rightarrow> a < b
      | (Col c, a, b) \<Rightarrow> known_column c \<and> b = a + int (col_size c))"

section \<open>More example tables\<close>

text \<open>Column \<^verbatim>\<open>b\<close> lies inside the four bytes of column \<^verbatim>\<open>a\<close>.\<close>

definition ex_overlap :: tableinfo where
  "ex_overlap = \<lparr>ti_endianess = None, ti_row_length = 8,
                 ti_columns = [plain_column ''a'' ''u32'' 0, plain_column ''b'' ''u8'' 2]\<rparr>"

definition ex_overlap_cls :: rowclass where
  "ex_overlap_cls =
     \<lparr>row_fields = [''a'', ''b'', ''c3''],
      columns = [Col (plain_column ''a'' ''u32'' 0), Col (plain_column ''b'' ''u8'' 2), Gap],
      struct_obj = \<lparr>st_format = ''<IB5s'', st_order = LittleEndian, st_native = False,
                    st_items = [(1, CHR ''I''), (1, CHR ''B''), (5, CHR ''s'')]\<rparr>\<rparr>"

text \<open>Column \<^verbatim>\<open>a\<close> covers the bytes 2 to 5 of a row declared four bytes long.\<close>

definition ex_past_end :: tableinfo where
  "ex_past_end = \<lparr>ti_endianess = None, ti_row_length = 4,
                  ti_columns = [plain_column ''a'' ''u32'' 2]\<rparr>"

definition ex_past_end_cls :: rowclass where
  "ex_past_end_cls =
     \<lparr>row_fields = [''c0'', ''a''],
      columns = [Gap, Col (plain_column ''a'' ''u32'' 2)],
      struct_obj = \<lparr>st_format = ''<2sI'', st_order = LittleEndian, st_native = False,
                    st_items = [(2, CHR ''s''), (1, CHR ''I'')]\<rparr>\<rparr>"

text \<open>The sub-field \<^verbatim>\<open>x\<close> covers the bits 6 to 9 of an 8-bit parent.\<close>

definition ex_bit_wide_column :: column where
  "ex_bit_wide_column =
     \<lparr>c_name = ''b'', c_type = ''bit8'', c_offset = 0,
      c_columns = Some [\<lparr>b_name = ''x'', b_offset = 6, b_length = 4\<rparr>], c_enum = None\<rparr>"

definition ex_bit_wide :: tableinfo where
  "ex_bit_wide = \<lparr>ti_endianess = None, ti_row_length = 1, ti_columns = [ex_bit_wide_column]\<rparr>"

definition ex_bit_wide_cls :: rowclass where
  "ex_bit_wide_cls =
     \<lparr>row_fields = [''b'', ''x''], columns = [Col ex_bit_wide_column],
      struct_obj = \<lparr>st_format = ''<B'', st_order = LittleEndian, st_native = False, st_items = [(1, CHR ''B'')]\<rparr>\<rparr>"

text \<open>Two columns with a gap before each and a trailing gap.\<close>

definition ex_gaps :: tableinfo where
  "ex_gaps = \<lparr>ti_endianess = None, ti_row_length = 8,
              ti_columns = [plain_column ''a'' ''u16'' 2, plain_column ''b'' ''u8'' 5]\<rparr>"

definition ex_gaps_cls :: rowclass where
  "ex_gaps_cls =
     \<lparr>row_fields = [''c0'', ''a'', ''c4'', ''b'', ''c6''],
      columns = [Gap, Col (plain_column ''a'' ''u16'' 2), Gap,
                 Col (plain_column ''b'' ''u8'' 5), Gap],
      struct_obj = \<lparr>st_format = ''<2sH1sB2s'', st_order = LittleEndian, st_native = False,
                    st_items = [(2, CHR ''s''), (1, CHR ''H''), (1, CHR ''s''),
                                (1, CHR ''B''), (2, CHR ''s'')]\<rparr>\<rparr>"

text \<open>
  Ascending columns without overlap inside a row of four bytes; the gap before \<^verbatim>\<open>x\<close>
  starts at byte 2 and gets the name \<^verbatim>\<open>c2\<close> of the first column.
\<close>

definition ex_clash :: tableinfo where
  "ex_clash = \<lparr>ti_endianess = None, ti_row_length = 4,
               ti_columns = [plain_column ''c2'' ''u16'' 0, plain_column ''x'' ''u8'' 3]\<rparr>"

text \<open>Two adjacent columns that fill a row of five bytes, with native alignment.\<close>

definition ex_native :: tableinfo where
  "ex_native = \<lparr>ti_endianess = Some ''@'', ti_row_length = 5,
                ti_columns = [plain_column ''a'' ''u8'' 0, plain_column ''b'' ''u32'' 1]\<rparr>"

definition ex_native_cls :: rowclass where
  "ex_native_cls =
     \<lparr>row_fields = [''a'', ''b''],
      columns = [Col (plain_column ''a'' ''u8'' 0), Col (plain_column ''b'' ''u32'' 1)],
      struct_obj = \<lparr>st_format = ''@BI'', st_order = LittleEndian, st_native = True,
                    st_items = [(1, CHR ''B''), (1, CHR ''I'')]\<rparr>\<rparr>"

text \<open>The table \<open>ex_gaps\<close> with the big-endian prefix.\<close>

definition ex_gaps_be :: tableinfo where
  "ex_gaps_be = ex_gaps\<lparr>ti_endianess := Some ''>''\<rparr>"

section \<open>\<^verbatim>\<open>scr.py\<close>: the SCR container\<close>

subsection \<open>Slices and the module-level \<^verbatim>\<open>unpack\<close>\<close>

text \<open>
  \<^verbatim>\<open>raw[i:j]\<close> for integers \<open>i\<close> and \<open>j\<close>: a negative index counts from the end, every index
  is clamped to the length, and the slice is empty when the stop is not after the start.
\<close>

definition slice_index :: "nat \<Rightarrow> int \<Rightarrow> nat" where
  "slice_index n i = (if i < 0 then nat (max 0 (i + int n)) else min n (nat i))"

definition slice :: "bytes \<Rightarrow> int \<Rightarrow> int \<Rightarrow> bytes" where
  "slice bs i j =
     take (slice_index (length bs) j - slice_index (length bs) i)
       (drop (slice_index (length bs) i) bs)"

text \<open>\<^verbatim>\<open>unpack(fmt, buffer)\<close> of the \<^verbatim>\<open>struct\<close> module, and \<^verbatim>\<open>unpack(fmt, buffer)[0]\<close>.\<close>

definition struct_unpack :: "string \<Rightarrow> bytes \<Rightarrow> py_error + pyval list" where
  "struct_unpack fmt buffer = bind_err (Struct fmt) (\<lambda>st. unpack st buffer)"

definition unpack1 :: "string \<Rightarrow> bytes \<Rightarrow> py_error + int" where
  "unpack1 fmt buffer = bind_err (struct_unpack fmt buffer) (\<lambda>vs. as_int (vs ! 0))"

subsection \<open>\<^verbatim>\<open>SCR.__init__\<close>, \<^verbatim>\<open>SCR.iterrowbytes\<close> and \<^verbatim>\<open>load\<close>\<close>

text \<open>An \<^verbatim>\<open>SCR\<close> object: its four attributes.\<close>

datatype scr =
  SCR_object (scr_raw: bytes) (row_count: int) (row_length: int) (table_offset: int)

definition SCR_init :: "bytes \<Rightarrow> py_error + scr" where
  "SCR_init raw =
     bind_err (unpack1 ''<I'' (slice raw 0x14 0x18))
       (\<lambda>table_info_offset.
          bind_err (struct_unpack ''<3I'' (slice raw table_info_offset (table_info_offset + 12)))
            (\<lambda>vs. case vs of
                     [PInt rc, PInt rl, PInt t] \<Rightarrow>
                       Inr (SCR_object raw rc rl t)
                   | _ \<Rightarrow> Inl ValueError))"


text \<open>
  \<^verbatim>\<open>load(path)\<close>, as a function of the contents of the file at \<^verbatim>\<open>path\<close>: \<^verbatim>\<open>read(4)\<close> after
  \<^verbatim>\<open>seek(p)\<close> gives the (at most) four bytes from position \<open>p\<close>, \<^verbatim>\<open>read()\<close> all bytes from
  there.
\<close>

definition magic :: bytes where
  "magic = [0x13, 0x80, 0x03, 0x1D]"

definition load :: "bytes \<Rightarrow> py_error + scr" where
  "load file =
     (if take 4 file = magic then SCR_init file
      else if take 4 (drop 0x10 file) = magic then SCR_init (drop 0x10 file)
      else Inl UnsupportedSCRError)"

subsection \<open>\<^verbatim>\<open>bytes.decode('utf-16le')\<close>\<close>

text \<open>
  The strict decoder: an odd number of bytes and a surrogate code unit that is not part
  of a high/low pair raise \<^verbatim>\<open>UnicodeDecodeError\<close>.
\<close>

fun code_units :: "bytes \<Rightarrow> int list option" where
  "code_units [] = Some []"
| "code_units [b] = None"
| "code_units (lo # hi # bs) = map_option ((#) (uint lo + 256 * uint hi)) (code_units bs)"

fun decode_units :: "int list \<Rightarrow> py_error + ustr" where
  "decode_units [] = Inr []"
| "decode_units (u # us) =
     (if 0xD800 \<le> u \<and> u < 0xDC00 then
        (case us of
           [] \<Rightarrow> Inl UnicodeDecodeError
         | v # vs \<Rightarrow>
             if 0xDC00 \<le> v \<and> v < 0xE000 then
               bind_err (decode_units vs)
                 (\<lambda>r. Inr (nat (0x10000 + (u - 0xD800) * 0x400 + (v - 0xDC00)) # r))
             else Inl UnicodeDecodeError)
      else if 0xDC00 \<le> u \<and> u < 0xE000 then Inl UnicodeDecodeError
      else bind_err (decode_units us) (\<lambda>r. Inr (nat u # r)))"

definition decode_utf16le :: "bytes \<Rightarrow> py_error + ustr" where
  "decode_utf16le bs =
     (case code_units bs of None \<Rightarrow> Inl UnicodeDecodeError | Some us \<Rightarrow> decode_units us)"

subsection \<open>\<^verbatim>\<open>SCR.getstring\<close>\<close>

text \<open>
  One iteration of the \<^verbatim>\<open>while True\<close> loop either raises, or leaves the loop
  (\<open>Break\<close>), or goes on with a new position and a longer list of strings. The branches
  that do more than move the position are definitions of their own.
\<close>

datatype step = Continue int "ustr list" | Break

definition buttons :: "(int \<times> string) list" where
  "buttons = [(0, ''A''), (1, ''B''), (2, ''X''), (3, ''D-Pad''), (4, ''Circle Pad''),
     (5, ''L''), (6, ''R''), (7, ''L''), (8, ''R''), (9, ''Y''), (10, ''Y'')]"

text \<open>The Python literal \<^verbatim>\<open>'\\n'\<close>: a backslash and the letter n.\<close>

definition backslash_n :: ustr where
  "backslash_n = [0x5C, 0x6E]"

definition branch_E9 :: "bytes \<Rightarrow> int \<Rightarrow> ustr list \<Rightarrow> py_error + step" where
  "branch_E9 raw pos strings =
     bind_err (unpack1 ''<H'' (slice raw (pos + 22) (pos + 24)))
       (\<lambda>byte_count.
          let pos1 = pos + 24 in
          bind_err (decode_utf16le (slice raw pos1 (pos1 + byte_count - 2)))
            (\<lambda>s1.
               let strings1 = strings @ [s1] @ [ascii '' / ''];
                   pos2 = pos1 + byte_count;
                   pos3 = (if slice raw pos2 (pos2 + 2) = [0xFF, 0xFF] then pos2 + 2 else pos2)
               in bind_err (unpack1 ''<H'' (slice raw (pos3 + 2) (pos3 + 4)))
                    (\<lambda>byte_count2.
                       bind_err (decode_utf16le (slice raw (pos3 + 4) (pos3 + 2 + byte_count2)))
                         (\<lambda>s2. Inr (Continue (pos3 + 4 + byte_count2) (strings1 @ [s2]))))))"

text \<open>
  The inner \<^verbatim>\<open>while\<close> of the choice branch: \<open>choice_end_pos\<close> moves by two up to \<open>limit\<close>
  or up to a null code unit.
\<close>

function choice_end :: "bytes \<Rightarrow> int \<Rightarrow> int \<Rightarrow> int" where
  "choice_end raw choice_end_pos limit =
     (if choice_end_pos < limit \<and> slice raw choice_end_pos (choice_end_pos + 2) \<noteq> [0, 0]
      then choice_end raw (choice_end_pos + 2) limit
      else choice_end_pos)"
  by pat_completeness auto

termination
  by (relation "measure (\<lambda>(raw, p, limit). nat (limit - p))") auto

declare choice_end.simps [simp del]

text \<open>
  The \<^verbatim>\<open>for choice_index in range(choice_count)\<close> loop, by the number of iterations
  that remain; \<^verbatim>\<open>choice_index != choice_count - 1\<close> holds when another iteration follows.
\<close>

fun choices :: "bytes \<Rightarrow> nat \<Rightarrow> int \<Rightarrow> ustr list \<Rightarrow> py_error + int \<times> ustr list" where
  "choices raw 0 pos strings = Inr (pos, strings)"
| "choices raw (Suc remaining) pos strings =
     bind_err (unpack1 ''<H'' (slice raw (pos + 4) (pos + 6)))
       (\<lambda>byte_count.
          bind_err (decode_utf16le
                      (slice raw (pos + 8) (choice_end raw (pos + 8) (pos + 8 + byte_count))))
            (\<lambda>s. choices raw remaining (pos + 8 + byte_count)
                    (strings @ [s] @ (if remaining \<noteq> 0 then [ascii '' / ''] else []))))"

definition branch_F5 :: "bytes \<Rightarrow> int \<Rightarrow> ustr list \<Rightarrow> py_error + step" where
  "branch_F5 raw pos strings =
     bind_err (unpack1 ''<I'' (slice raw (pos + 12) (pos + 16)))
       (\<lambda>choice_count.
          bind_err (choices raw (nat choice_count) (pos + 16 + 4 * choice_count)
                      (strings @ [if length strings > 0 then ascii '' ('' else ascii ''('']))
            (\<lambda>(pos', strings'). Inr (Continue pos' (strings' @ [ascii '')'']))))"

definition branch_F6 :: "bytes \<Rightarrow> int \<Rightarrow> ustr list \<Rightarrow> py_error + step" where
  "branch_F6 raw pos strings =
     bind_err (struct_unpack ''<II'' (slice raw (pos + 4) (pos + 12)))
       (\<lambda>unpacked.
          case unpacked of
            [a, b] \<Rightarrow>
              bind_err (format_val a)
                (\<lambda>x. bind_err (format_val b)
                   (\<lambda>y. Inr (Continue (pos + 12)
                              (strings @ [ascii (''('' @ x @ '', '' @ y @ '')'')]))))
          | _ \<Rightarrow> Inl NotModelled)"

definition branch_F9 :: "bytes \<Rightarrow> int \<Rightarrow> ustr list \<Rightarrow> py_error + step" where
  "branch_F9 raw pos strings =
     bind_err (unpack1 ''<I'' (slice raw (pos + 8) (pos + 12)))
       (\<lambda>button.
          Inr (Continue (pos + 12)
                 (strings @ [case map_of buttons button of
                               Some name \<Rightarrow> ascii name
                             | None \<Rightarrow> ascii ''?''])))"

definition getstring_step :: "bytes \<Rightarrow> int \<Rightarrow> ustr list \<Rightarrow> py_error + step" where
  "getstring_step raw pos strings =
     (if slice raw pos (pos + 4) = [0xE9, 0xFF, 0xFF, 0xFF] then branch_E9 raw pos strings
      else if slice raw pos (pos + 4) = [0xF1, 0xFF, 0xFF, 0xFF] then
        Inr (Continue (pos + 8) (strings @ [backslash_n]))
      else if slice raw pos (pos + 4) = [0xF4, 0xFF, 0xFF, 0xFF] then
        bind_err (unpack1 ''<H'' (slice raw (pos + 10) (pos + 12)))
          (\<lambda>byte_count. Inr (Continue (pos + 12 + byte_count) strings))
      else if slice raw pos (pos + 4) = [0xF5, 0xFF, 0xFF, 0xFF] then branch_F5 raw pos strings
      else if slice raw pos (pos + 4) = [0xF6, 0xFF, 0xFF, 0xFF] then branch_F6 raw pos strings
      else if slice raw pos (pos + 4) = [0xF7, 0xFF, 0xFF, 0xFF] then
        Inr (Continue (pos + 12) strings)
      else if slice raw pos (pos + 4) = [0xF9, 0xFF, 0xFF, 0xFF] then branch_F9 raw pos strings
      else if slice raw pos (pos + 4) = [0xF0, 0xFF, 0xFF, 0xFF] then
        Inr (Continue (pos + 8) (strings @ [backslash_n]))
      else if slice raw pos (pos + 4) = [0xF1, 0xFF, 0xFF, 0xFF] then
        Inr (Continue (pos + 8) strings)
      else if slice raw pos (pos + 2) = [0xFF, 0xFF] then Inr (Continue (pos + 2) strings)
      else if slice raw pos (pos + 2) \<noteq> [0, 0] then
        bind_err (decode_utf16le (slice raw pos (pos + 2)))
          (\<lambda>s. Inr (Continue (pos + 2) (strings @ [s])))
      else Inr Break)"

text \<open>
  The loop itself may run forever, so its result is an option: \<open>None\<close> when no iteration
  leaves the loop or raises. \<^verbatim>\<open>''.join(strings)\<close> is the concatenation.
\<close>

partial_function (option) getstring_loop ::
  "bytes \<Rightarrow> int \<Rightarrow> ustr list \<Rightarrow> (py_error + ustr) option" where
  "getstring_loop raw pos strings =
     (case getstring_step raw pos strings of
        Inl e \<Rightarrow> Some (Inl e)
      | Inr Break \<Rightarrow> Some (Inr (concat strings))
      | Inr (Continue pos' strings') \<Rightarrow> getstring_loop raw pos' strings')"

definition getstring :: "scr \<Rightarrow> int \<Rightarrow> (py_error + ustr) option" where
  "getstring self offset = getstring_loop (scr_raw self) offset []"

subsection \<open>Reference predicates and example containers\<close>

text \<open>
  The two reads of \<^verbatim>\<open>SCR.__init__\<close> lie within the buffer: the four bytes at \<open>0x14\<close>, and
  the twelve bytes at the table-info offset stored there.
\<close>

definition header_readable :: "bytes \<Rightarrow> bool" where
  "header_readable raw =
     (0x18 \<le> length raw \<and> nat (le_int (slice raw 0x14 0x18)) + 12 \<le> length raw)"

text \<open>
  A container of 44 bytes: the magic, table info at \<open>0x18\<close>, two rows of four bytes at
  offset 36.
\<close>

definition ex_rows_raw :: bytes where
  "ex_rows_raw = magic @ replicate 16 0 @
     [0x18, 0, 0, 0,  2, 0, 0, 0,  4, 0, 0, 0,  36, 0, 0, 0,  1, 2, 3, 4,  5, 6, 7, 8]"

definition ex_rows :: scr where
  "ex_rows = SCR_object ex_rows_raw 2 4 36"



text \<open>Files: sixteen other bytes in front of a container, and the magic alone.\<close>

definition ex_wrapped_file :: bytes where
  "ex_wrapped_file = replicate 16 0xAA @ ex_rows_raw"

definition ex_magic_only_file :: bytes where
  "ex_magic_only_file = magic"

definition ex_other_file :: bytes where
  "ex_other_file = replicate 16 0xAA @ [0x13, 0x80, 0x03, 0x1E] @ replicate 32 0"

subsection \<open>Reference notions for the text decoder\<close>

text \<open>
  A code unit that is text for \<^verbatim>\<open>getstring\<close> whatever follows it: not null, not a
  surrogate, and its high byte is not \<open>0xFF\<close>, so that it starts no control code.
  \<open>utf16le_units\<close> gives the bytes of a sequence of code units.
\<close>

definition plain_unit :: "int \<Rightarrow> bool" where
  "plain_unit u = ((0 < u \<and> u < 0xD800) \<or> (0xE000 \<le> u \<and> u < 0xFF00))"

definition utf16le_units :: "int list \<Rightarrow> bytes" where
  "utf16le_units us = concat (map (\<lambda>u. [word_of_int u, word_of_int (u div 256)]) us)"

text \<open>A buffer with the text \<^verbatim>\<open>AB\<close> and its terminator at offset 4, after four other bytes.\<close>

definition ex_text :: scr where
  "ex_text = SCR_object ([1, 2, 3, 4] @ utf16le_units [0x41, 0x42] @ [0, 0] @ [5, 6]) 0 0 0"

subsection \<open>The token stream as the specification describes it\<close>

text \<open>
  The specification reads the text region as a sequence of tokens. Each token starts
  where the one before it ends, consumes a span of bytes and emits text fragments; the
  kind of a token is decided at its first byte: a control code, whose sentinel has the
  three upper bytes \<open>0xFF\<close>, the two-byte filler \<open>0xFFFF\<close>, or one code unit of text. The
  scan ends at the first token boundary that holds a null code unit. The spans and the
  fields of the control codes are those of \<^verbatim>\<open>scr.py\<close>; a field that does not lie inside the
  buffer raises \<^verbatim>\<open>struct.error\<close>.
\<close>

datatype token = Token (t_span: int) (t_text: "ustr list")

definition sentinel :: "bytes \<Rightarrow> int \<Rightarrow> byte option" where
  "sentinel raw pos =
     (case slice raw pos (pos + 4) of
        [k, a, b, c] \<Rightarrow> if a = 0xFF \<and> b = 0xFF \<and> c = 0xFF then Some k else None
      | _ \<Rightarrow> None)"

definition null_unit :: "bytes \<Rightarrow> int \<Rightarrow> bool" where
  "null_unit raw pos = (slice raw pos (pos + 2) = [0, 0])"

definition bytes_at :: "bytes \<Rightarrow> int \<Rightarrow> nat \<Rightarrow> py_error + bytes" where
  "bytes_at raw p n =
     (if length (slice raw p (p + int n)) = n then Inr (slice raw p (p + int n))
      else Inl StructError)"

definition u16_at :: "bytes \<Rightarrow> int \<Rightarrow> py_error + int" where
  "u16_at raw p = bind_err (bytes_at raw p 2) (\<lambda>bs. Inr (le_int bs))"

definition u32_at :: "bytes \<Rightarrow> int \<Rightarrow> py_error + int" where
  "u32_at raw p = bind_err (bytes_at raw p 4) (\<lambda>bs. Inr (le_int bs))"

definition text_between :: "bytes \<Rightarrow> int \<Rightarrow> int \<Rightarrow> py_error + ustr" where
  "text_between raw a b = decode_utf16le (slice raw a b)"

definition button_label :: "int \<Rightarrow> ustr" where
  "button_label b = (case map_of buttons b of Some name \<Rightarrow> ascii name | None \<Rightarrow> ascii ''?'')"

text \<open>
  Branch: 24 bytes with the length of the first string at byte 22; the first string
  without its last two bytes; an optional filler; four bytes with the length of the
  second string at byte 2; the second string without its last two bytes.
\<close>

definition branch_token :: "bytes \<Rightarrow> int \<Rightarrow> py_error + token" where
  "branch_token raw pos =
     bind_err (u16_at raw (pos + 22))
       (\<lambda>n1. bind_err (text_between raw (pos + 24) (pos + 24 + n1 - 2))
          (\<lambda>s1. let q = pos + 24 + n1 + (if slice raw (pos + 24 + n1) (pos + 24 + n1 + 2)
                                              = [0xFF, 0xFF] then 2 else 0)
                in bind_err (u16_at raw (q + 2))
                     (\<lambda>n2. bind_err (text_between raw (q + 4) (q + 2 + n2))
                        (\<lambda>s2. Inr (Token (q + 4 + n2 - pos) [s1, ascii '' / '', s2])))))"

text \<open>
  Choice set: 16 bytes with the number of options at byte 12, four bytes per option, then
  the options. An option has eight bytes with its length at byte 4, and its text, which
  ends before the first null code unit among its code units.
\<close>

fun option_stop :: "bytes \<Rightarrow> int \<Rightarrow> nat \<Rightarrow> int" where
  "option_stop raw p 0 = p"
| "option_stop raw p (Suc k) = (if null_unit raw p then p else option_stop raw (p + 2) k)"

fun ref_options :: "bytes \<Rightarrow> nat \<Rightarrow> int \<Rightarrow> py_error + int \<times> ustr list" where
  "ref_options raw 0 p = Inr (p, [])"
| "ref_options raw (Suc n) p =
     bind_err (u16_at raw (p + 4))
       (\<lambda>len. bind_err (text_between raw (p + 8)
                           (option_stop raw (p + 8) (nat ((len + 1) div 2))))
          (\<lambda>s. bind_err (ref_options raw n (p + 8 + len))
                  (\<lambda>(q, fs). Inr (q, [s] @ (if n \<noteq> 0 then [ascii '' / ''] else []) @ fs))))"

definition choice_token :: "bytes \<Rightarrow> int \<Rightarrow> bool \<Rightarrow> py_error + token" where
  "choice_token raw pos first =
     bind_err (u32_at raw (pos + 12))
       (\<lambda>n. bind_err (ref_options raw (nat n) (pos + 16 + 4 * n))
          (\<lambda>(q, fs). Inr (Token (q - pos)
                            ([if first then ascii ''('' else ascii '' (''] @ fs @ [ascii '')'']))))"

definition variable_token :: "bytes \<Rightarrow> int \<Rightarrow> py_error + token" where
  "variable_token raw pos =
     bind_err (bytes_at raw (pos + 4) 8)
       (\<lambda>bs. Inr (Token 12
                    [ascii (''('' @ format_int (le_int (take 4 bs)) @ '', ''
                            @ format_int (le_int (drop 4 bs)) @ '')'')]))"

definition plain_token :: "bytes \<Rightarrow> int \<Rightarrow> py_error + token" where
  "plain_token raw pos =
     (if slice raw pos (pos + 2) = [0xFF, 0xFF] then Inr (Token 2 [])
      else bind_err (text_between raw pos (pos + 2)) (\<lambda>s. Inr (Token 2 [s])))"

text \<open>
  The token at a boundary that holds no null code unit; \<open>first\<close> says that nothing has
  been emitted yet.
\<close>

definition ref_token :: "bytes \<Rightarrow> int \<Rightarrow> bool \<Rightarrow> py_error + token" where
  "ref_token raw pos first =
     (case sentinel raw pos of
        None \<Rightarrow> plain_token raw pos
      | Some k \<Rightarrow>
          if k = 0xE9 then branch_token raw pos
          else if k = 0xF0 \<or> k = 0xF1 then Inr (Token 8 [backslash_n])
          else if k = 0xF4 then
            bind_err (u16_at raw (pos + 10)) (\<lambda>n. Inr (Token (12 + n) []))
          else if k = 0xF5 then choice_token raw pos first
          else if k = 0xF6 then variable_token raw pos
          else if k = 0xF7 then Inr (Token 12 [])
          else if k = 0xF9 then
            bind_err (u32_at raw (pos + 8)) (\<lambda>b. Inr (Token 12 [button_label b]))
          else plain_token raw pos)"

text \<open>The state of the loop after a token, or the exception of the token.\<close>

definition continue_with :: "int \<Rightarrow> ustr list \<Rightarrow> py_error + token \<Rightarrow> py_error + step" where
  "continue_with pos strings r =
     (case r of Inl e \<Rightarrow> Inl e
      | Inr t \<Rightarrow> Inr (Continue (pos + t_span t) (strings @ t_text t)))"

text \<open>
  The scan of at most \<open>n\<close> tokens from a boundary: the decoded string when a null code
  unit is reached, the exception of the first token that raises, and \<open>None\<close> when \<open>n\<close>
  tokens do not reach either.
\<close>

fun ref_scan :: "nat \<Rightarrow> bytes \<Rightarrow> int \<Rightarrow> ustr list \<Rightarrow> (py_error + ustr) option" where
  "ref_scan 0 raw pos frags = None"
| "ref_scan (Suc n) raw pos frags =
     (if null_unit raw pos then Some (Inr (concat frags))
      else
        (case ref_token raw pos (frags = []) of
           Inl e \<Rightarrow> Some (Inl e)
         | Inr t \<Rightarrow> ref_scan n raw (pos + t_span t) (frags @ t_text t)))"

text \<open>
  A buffer with a line break, the text \<^verbatim>\<open>A\<close>, the button 0 and the terminator; and one
  with a line break of which the last byte is missing.
\<close>

definition ex_markup :: scr where
  "ex_markup = SCR_object
     ([0xF0, 0xFF, 0xFF, 0xFF, 0, 0, 0, 0,  0x41, 0,
       0xF9, 0xFF, 0xFF, 0xFF, 0, 0, 0, 0, 0, 0, 0, 0,  0, 0,  0x42, 0, 0, 0]) 0 0 0"

definition ex_truncated :: scr where
  "ex_truncated = SCR_object [0x41, 0, 0xF9, 0xFF, 0xFF, 0xFF, 0, 0, 0, 0, 0, 0, 0] 0 0 0"

definition ex_surrogate :: scr where
  "ex_surrogate = SCR_object [0x41, 0, 0x00, 0xD8, 0, 0] 0 0 0"



section \<open>Basic facts\<close>

lemma bind_err_simps [simp]:
  "bind_err (Inl e) f = Inl e" "bind_err (Inr x) f = f x"
  by (simp_all add: bind_err_def)

lemma bind_err_Inr_iff: "bind_err m f = Inr y \<longleftrightarrow> (\<exists>x. m = Inr x \<and> f x = Inr y)"
  by (cases m) simp_all

lemma bind_err_Inl_iff:
  "bind_err m f = Inl e \<longleftrightarrow> m = Inl e \<or> (\<exists>x. m = Inr x \<and> f x = Inl e)"
  by (cases m) simp_all

section \<open>The default byte order\<close>

lemma step_structstr:
  "newrowclass_step s c = Inr s' \<Longrightarrow> \<exists>t. structstr s' = structstr s @ t"
  by (auto simp: newrowclass_step_def Let_def add_gap_def bind_err_Inr_iff
           split: option.splits if_splits)

lemma loop_structstr:
  "newrowclass_loop s cs = Inr s' \<Longrightarrow> \<exists>t. structstr s' = structstr s @ t"
proof (induction cs arbitrary: s)
  case Nil
  then show ?case by simp
next
  case (Cons c cs)
  then obtain s1 where 1: "newrowclass_step s c = Inr s1"
    and 2: "newrowclass_loop s1 cs = Inr s'"
    by (auto simp: bind_err_Inr_iff)
  from step_structstr [OF 1] Cons.IH [OF 2] show ?case by auto
qed

lemma Struct_lt:
  "Struct (CHR ''<'' # t) = Inr st \<Longrightarrow>
     st_order st = LittleEndian \<and> st_format st = CHR ''<'' # t \<and> \<not> st_native st"
  by (auto simp: Struct_def whichtable_def bind_err_Inr_iff split: if_splits)

text \<open>
  C9. When the table description has no \<^verbatim>\<open>endianess\<close> key, the format string of the
  compiled row class begins with \<^verbatim>\<open><\<close>, its struct object is little-endian and without
  alignment, and every successful \<^verbatim>\<open>unpack\<close> of a row decodes the items in little-endian
  order.
\<close>

theorem default_little_endian:
  assumes "ti_endianess ti = None" and "newrowclass ti = Inr cls"
  shows "take 1 (st_format (struct_obj cls)) = ''<''
       \<and> st_order (struct_obj cls) = LittleEndian
       \<and> \<not> st_native (struct_obj cls)
       \<and> (\<forall>bs rawdata. unpack (struct_obj cls) bs = Inr rawdata \<longrightarrow>
            rawdata = unpack_items LittleEndian (st_items (struct_obj cls)) bs)"
proof -
  let ?fin = "\<lambda>s. if gapstart s < ti_row_length ti then add_gap s (ti_row_length ti) else s"
  from assms obtain s st where
    loop: "newrowclass_loop
             \<lparr>gapstart = 0, structstr = ''<'', colnames = [], newtableinfo = []\<rparr>
             (ti_columns ti) = Inr s"
    and st: "Struct (structstr (?fin s)) = Inr st"
    and cls: "struct_obj cls = st"
    by (auto simp: newrowclass_def bind_err_Inr_iff Let_def)
  from loop_structstr [OF loop] obtain t where "structstr s = CHR ''<'' # t" by auto
  then have "\<exists>t'. structstr (?fin s) = CHR ''<'' # t'"
    by (simp add: add_gap_def)
  then obtain t' where "structstr (?fin s) = CHR ''<'' # t'" ..
  with st Struct_lt
  have "st_order st = LittleEndian \<and> st_format st = CHR ''<'' # t' \<and> \<not> st_native st"
    by metis
  with cls show ?thesis by (auto simp: unpack_def unpack_items_def split: if_splits)
qed

theorem default_little_endian_witness:
  "ti_endianess ex_u16 = None \<and> newrowclass ex_u16 = Inr ex_u16_cls
   \<and> take 1 (st_format (struct_obj ex_u16_cls)) = ''<''
   \<and> st_order (struct_obj ex_u16_cls) = LittleEndian
   \<and> \<not> st_native (struct_obj ex_u16_cls)
   \<and> unpack (struct_obj ex_u16_cls) [0x34, 0x12] = Inr [PInt 0x1234]"
proof -
  have h1: "ti_endianess ex_u16 = None" by (simp add: ex_u16_def)
  have h2: "newrowclass ex_u16 = Inr ex_u16_cls" by code_simp
  have h3: "unpack (struct_obj ex_u16_cls) [0x34, 0x12] = Inr [PInt 0x1234]" by code_simp
  from default_little_endian [OF h1 h2] h1 h2 h3 show ?thesis by simp
qed

section \<open>Decoding and encoding again\<close>

text \<open>
  C1. The row class of \<open>ex_gap\<close> has the integer column \<^verbatim>\<open>a\<close> and a gap. \<^verbatim>\<open>feed\<close> decodes
  the bytes \<^verbatim>\<open>01 02\<close>; \<^verbatim>\<open>tobytes\<close> on the decoded row raises \<^verbatim>\<open>AttributeError\<close> instead of
  returning the two bytes. Were \<^verbatim>\<open>__getattr__\<close> the lookup of a field by name, it would
  raise \<^verbatim>\<open>KeyError\<close> at the gap, whose dictionary has no key \<^verbatim>\<open>name\<close>.
\<close>

theorem feed_tobytes_gap_fails:
  "newrowclass ex_gap = Inr ex_gap_cls
   \<and> feed ex_gap_cls [1, 2] None = Inr [PInt 1, PBytes [2]]
   \<and> tobytes ex_gap_cls [PInt 1, PBytes [2]] = Inl AttributeError
   \<and> feed_tobytes ex_gap [1, 2] = Inl AttributeError
   \<and> feed_tobytes_by_name ex_gap [1, 2] = Inl KeyError"
  by code_simp

text \<open>
  C2. The row \<^verbatim>\<open>(b=0x21, x=1, y=2)\<close> of \<open>ex_bits\<close> has both sub-fields in range. \<^verbatim>\<open>tobytes\<close>
  raises \<^verbatim>\<open>AttributeError\<close>. Were \<^verbatim>\<open>__getattr__\<close> the lookup of a field by name, the loop
  over the sub-fields would leave \<^verbatim>\<open>y << 4\<close>, the byte \<^verbatim>\<open>0x20\<close>, which decodes to
  \<^verbatim>\<open>x = 0\<close>.
\<close>

theorem tobytes_bits_loses_subfield:
  "newrowclass ex_bits = Inr ex_bits_cls
   \<and> feed ex_bits_cls [0x21] None = Inr [PInt 0x21, PInt 1, PInt 2]
   \<and> tobytes ex_bits_cls [PInt 0x21, PInt 1, PInt 2] = Inl AttributeError
   \<and> tobytes_via (Inr (field_by_name ex_bits_cls [PInt 0x21, PInt 1, PInt 2])) ex_bits_cls
       = Inr [0x20]
   \<and> feed ex_bits_cls [0x20] None = Inr [PInt 0x20, PInt 0, PInt 2]"
  by code_simp


section \<open>Decoding a row\<close>

lemma feed_bits_length: "feed_bits el bcs = Inr vs \<Longrightarrow> length vs = length bcs"
  by (induction bcs arbitrary: vs) (auto simp: bind_err_Inr_iff)

lemma feed_column_length:
  "feed_column hook info el = Inr vs \<Longrightarrow> length vs = data_width info"
  by (auto simp: feed_column_def data_width_def bind_err_Inr_iff startswith_def
           dest: feed_bits_length split: if_splits option.splits)

lemma feed_loop_nth:
  "feed_loop hook (zip infos raw) = Inr data \<Longrightarrow> i < length infos \<Longrightarrow> i < length raw \<Longrightarrow>
     \<exists>vs. feed_column hook (infos ! i) (raw ! i) = Inr vs
        \<and> take (length vs) (drop (data_index infos i) data) = vs"
proof (induction infos arbitrary: raw i data)
  case Nil
  then show ?case by simp
next
  case (Cons info infos)
  then obtain el raw' where raw: "raw = el # raw'" by (cases raw) auto
  from Cons.prems(1) raw obtain vs ws where
    vs: "feed_column hook info el = Inr vs"
    and ws: "feed_loop hook (zip infos raw') = Inr ws"
    and data: "data = vs @ ws"
    by (auto simp: bind_err_Inr_iff)
  show ?case
  proof (cases i)
    case 0
    with vs data raw show ?thesis by (simp add: data_index_def)
  next
    case (Suc j)
    with Cons.prems raw have "j < length infos" "j < length raw'" by simp_all
    from Cons.IH [OF ws this] obtain us where
      us: "feed_column hook (infos ! j) (raw' ! j) = Inr us"
      "take (length us) (drop (data_index infos j) ws) = us" by blast
    have "data_index (info # infos) (Suc j) = length vs + data_index infos j"
      using feed_column_length [OF vs] by (simp add: data_index_def)
    with us Suc raw data show ?thesis by simp
  qed
qed

lemma take1_drop_nth: "take 1 (drop k xs) = [x] \<Longrightarrow> xs ! k = x"
proof -
  assume h: "take 1 (drop k xs) = [x]"
  then have "drop k xs \<noteq> []" by auto
  then have k: "k < length xs" by simp
  then have "drop k xs = xs ! k # drop (Suc k) xs" by (simp add: Cons_nth_drop_Suc)
  with h show ?thesis by simp
qed

lemma feed_Inr: "feed cls bs hook = Inr row \<Longrightarrow> unpack (struct_obj cls) bs = Inr rawdata \<Longrightarrow>
   feed_loop hook (zip (columns cls) rawdata) = Inr row"
  by (auto simp: feed_def make_def bind_err_Inr_iff split: if_splits)


lemma startswith_enum:
  "startswith s ''enum'' \<Longrightarrow> \<not> startswith s ''bit'' \<and> s \<noteq> ''str''"
  by (cases s) (auto simp: startswith_def)

text \<open>
  C10. For a \<^verbatim>\<open>str\<close> column \<open>i\<close> of any row class, \<^verbatim>\<open>feed\<close> without a string hook stores
  the unpacked element itself at the column's position in the row; with a hook \<open>h\<close> it
  stores what \<open>h\<close> returns for that element.
\<close>

theorem str_column_raw_without_hook:
  assumes "unpack (struct_obj cls) bs = Inr rawdata"
    and "i < length (columns cls)" and "i < length rawdata"
    and "info_type (columns cls ! i) = ''str''"
  shows "(feed cls bs None = Inr row \<longrightarrow> row ! data_index (columns cls) i = rawdata ! i)
       \<and> (feed cls bs (Some h) = Inr row \<longrightarrow>
            h (rawdata ! i) = Inr (row ! data_index (columns cls) i))"
proof (intro conjI impI)
  assume f: "feed cls bs None = Inr row"
  have c: "feed_column None (columns cls ! i) (rawdata ! i) = Inr [rawdata ! i]"
    using assms(4) by (simp add: feed_column_def startswith_def)
  from feed_loop_nth [OF feed_Inr [OF f assms(1)] assms(2,3)] c
  have "take 1 (drop (data_index (columns cls) i) row) = [rawdata ! i]" by auto
  then show "row ! data_index (columns cls) i = rawdata ! i" by (rule take1_drop_nth)
next
  assume f: "feed cls bs (Some h) = Inr row"
  have c: "feed_column (Some h) (columns cls ! i) (rawdata ! i)
             = bind_err (h (rawdata ! i)) (\<lambda>v. Inr [v])"
    using assms(4) by (simp add: feed_column_def)
  from feed_loop_nth [OF feed_Inr [OF f assms(1)] assms(2,3)] obtain vs where
    vs: "feed_column (Some h) (columns cls ! i) (rawdata ! i) = Inr vs"
    and t: "take (length vs) (drop (data_index (columns cls) i) row) = vs" by blast
  from vs c obtain v where v: "h (rawdata ! i) = Inr v" and "vs = [v]"
    by (cases "h (rawdata ! i)") auto
  with t have "take 1 (drop (data_index (columns cls) i) row) = [v]" by simp
  from take1_drop_nth [OF this] v
  show "h (rawdata ! i) = Inr (row ! data_index (columns cls) i)" by simp
qed

theorem str_column_raw_without_hook_witness:
  "unpack (struct_obj ex_str_cls) [0x21, 0x10, 0x32, 0x54, 0x76]
     = Inr [PInt 0x21, PInt 0x76543210]
   \<and> (1::nat) < length (columns ex_str_cls)
   \<and> info_type (columns ex_str_cls ! 1) = ''str''
   \<and> newrowclass ex_str = Inr ex_str_cls
   \<and> feed ex_str_cls [0x21, 0x10, 0x32, 0x54, 0x76] None
       = Inr [PInt 0x21, PInt 1, PInt 2, PInt 0x76543210]
   \<and> [PInt 0x21, PInt 1, PInt 2, PInt 0x76543210] ! data_index (columns ex_str_cls) 1
       = PInt 0x76543210
   \<and> feed ex_str_cls [0x21, 0x10, 0x32, 0x54, 0x76] (Some ex_resolve)
       = Inr [PInt 0x21, PInt 1, PInt 2, PStr (ascii ''Hi'')]
   \<and> ex_resolve (PInt 0x76543210)
       = Inr ([PInt 0x21, PInt 1, PInt 2, PStr (ascii ''Hi'')] ! data_index (columns ex_str_cls) 1)"
proof -
  have h1: "unpack (struct_obj ex_str_cls) [0x21, 0x10, 0x32, 0x54, 0x76]
              = Inr [PInt 0x21, PInt 0x76543210]" by code_simp
  have h2: "1 < length (columns ex_str_cls)" by code_simp
  have h3: "1 < length [PInt 0x21, PInt 0x76543210]" by simp
  have h4: "info_type (columns ex_str_cls ! 1) = ''str''" by code_simp
  have h5: "newrowclass ex_str = Inr ex_str_cls" by code_simp
  have f1: "feed ex_str_cls [0x21, 0x10, 0x32, 0x54, 0x76] None
              = Inr [PInt 0x21, PInt 1, PInt 2, PInt 0x76543210]" by code_simp
  have f2: "feed ex_str_cls [0x21, 0x10, 0x32, 0x54, 0x76] (Some ex_resolve)
              = Inr [PInt 0x21, PInt 1, PInt 2, PStr (ascii ''Hi'')]" by code_simp
  from str_column_raw_without_hook [OF h1 h2 h3 h4,
      of "[PInt 0x21, PInt 1, PInt 2, PInt 0x76543210]" ex_resolve] f1
  have r1: "[PInt 0x21, PInt 1, PInt 2, PInt 0x76543210] ! data_index (columns ex_str_cls) 1
              = PInt 0x76543210" by simp
  from str_column_raw_without_hook [OF h1 h2 h3 h4,
      of "[PInt 0x21, PInt 1, PInt 2, PStr (ascii ''Hi'')]" ex_resolve] f2
  have r2: "ex_resolve (PInt 0x76543210)
      = Inr ([PInt 0x21, PInt 1, PInt 2, PStr (ascii ''Hi'')] ! data_index (columns ex_str_cls) 1)"
    by simp
  from h1 h2 h4 h5 f1 f2 r1 r2 show ?thesis by simp
qed

text \<open>
  C7, as the code has it. For an enum column \<open>i\<close> whose table has no label for the
  unpacked integer, the column's decoding raises \<^verbatim>\<open>KeyError\<close> and \<^verbatim>\<open>feed\<close> returns no
  row, whatever string hook the caller passes: \<^verbatim>\<open>feed\<close> has no other parameter, and no
  pass-through of the raw integer.
\<close>

theorem enum_unknown_value_fails:
  assumes "unpack (struct_obj cls) bs = Inr rawdata"
    and "i < length (columns cls)" and "i < length rawdata"
    and "startswith (info_type (columns cls ! i)) ''enum''"
    and "rawdata ! i = PInt v"
    and "info_enum (columns cls ! i) = Inr tbl" and "map_of tbl (format_int v) = None"
  shows "feed_column hook (columns cls ! i) (rawdata ! i) = Inl KeyError
       \<and> (\<exists>e. feed cls bs hook = Inl e)"
proof
  show col: "feed_column hook (columns cls ! i) (rawdata ! i) = Inl KeyError"
    using assms(5-7) startswith_enum [OF assms(4)] assms(4)
    by (simp add: feed_column_def format_val_def)
  show "\<exists>e. feed cls bs hook = Inl e"
  proof (cases "feed cls bs hook")
    case (Inl e)
    then show ?thesis by blast
  next
    case (Inr row)
    from feed_loop_nth [OF feed_Inr [OF this assms(1)] assms(2,3)] obtain vs where
      "feed_column hook (columns cls ! i) (rawdata ! i) = Inr vs" by blast
    with col show ?thesis by simp
  qed
qed

theorem enum_unknown_value_fails_witness:
  "unpack (struct_obj ex_enum_cls) [7] = Inr [PInt 7]
   \<and> (0::nat) < length (columns ex_enum_cls)
   \<and> startswith (info_type (columns ex_enum_cls ! 0)) ''enum''
   \<and> info_enum (columns ex_enum_cls ! 0)
       = Inr [(''0'', PStr (ascii ''Zero'')), (''1'', PStr (ascii ''One''))]
   \<and> map_of [(''0'', PStr (ascii ''Zero'')), (''1'', PStr (ascii ''One''))] (format_int 7) = None
   \<and> feed_column None (columns ex_enum_cls ! 0) (PInt 7) = Inl KeyError
   \<and> (\<exists>e. feed ex_enum_cls [7] None = Inl e)"
proof -
  have h1: "unpack (struct_obj ex_enum_cls) [7] = Inr [PInt 7]" by code_simp
  have h2: "0 < length (columns ex_enum_cls)" by code_simp
  have h3: "0 < length [PInt 7]" by simp
  have h4: "startswith (info_type (columns ex_enum_cls ! 0)) ''enum''" by code_simp
  have h5: "[PInt 7] ! 0 = PInt 7" by simp
  have h6: "info_enum (columns ex_enum_cls ! 0)
              = Inr [(''0'', PStr (ascii ''Zero'')), (''1'', PStr (ascii ''One''))]" by code_simp
  have h7: "map_of [(''0'', PStr (ascii ''Zero'')), (''1'', PStr (ascii ''One''))] (format_int 7)
              = None" by code_simp
  from enum_unknown_value_fails [OF h1 h2 h3 h4 h5 h6 h7, of None] h1 h2 h4 h6 h7
  show ?thesis by simp
qed

text \<open>
  C7, as stated, fails on the raw value 7 of \<open>ex_enum\<close>: decoding raises \<^verbatim>\<open>KeyError\<close>
  without a hook and with one, and the value 1, which has a label, decodes to it.
\<close>

theorem enum_no_fallback_counterexample:
  "newrowclass ex_enum = Inr ex_enum_cls
   \<and> feed ex_enum_cls [7] None = Inl KeyError
   \<and> feed ex_enum_cls [7] (Some ex_hook) = Inl KeyError
   \<and> feed ex_enum_cls [1] None = Inr [PStr (ascii ''One'')]"
  by code_simp


section \<open>Parsing the format string that \<^verbatim>\<open>newrowclass\<close> builds\<close>

lemma digit_char_props: "d < 10 \<Longrightarrow> is_digit (digit_char d) \<and> digit_val (digit_char d) = d"
proof -
  assume "d < 10"
  then have "d = 0 \<or> d = 1 \<or> d = 2 \<or> d = 3 \<or> d = 4 \<or> d = 5 \<or> d = 6 \<or> d = 7 \<or> d = 8 \<or> d = 9"
    by arith
  then show ?thesis
    by (elim disjE) (simp_all add: is_digit_def digit_val_def digit_char_def)
qed

lemma parse_digits:
  "parse_items tbl cnt (digits n @ rest) =
     parse_items tbl (Some ((case cnt of None \<Rightarrow> 0 | Some m \<Rightarrow> m) * 10 ^ length (digits n) + n)) rest"
proof (induction n arbitrary: cnt rest rule: digits.induct)
  case (1 n)
  show ?case
  proof (cases "n < 10")
    case True
    then show ?thesis
      using digit_char_props [of n] by (simp add: digits.simps [of n])
  next
    case False
    have d: "n mod 10 < 10" by simp
    have eq: "digits n = digits (n div 10) @ [digit_char (n mod 10)]"
      using False by (simp add: digits.simps [of n])
    let ?c = "case cnt of None \<Rightarrow> 0 | Some m \<Rightarrow> m"
    let ?k = "length (digits (n div 10))"
    have ar: "(?c * 10 ^ ?k + n div 10) * 10 + n mod 10 = ?c * 10 ^ Suc ?k + n"
      by (simp add: algebra_simps)
    have "parse_items tbl cnt (digits n @ rest)
            = parse_items tbl (Some (?c * 10 ^ ?k + n div 10)) (digit_char (n mod 10) # rest)"
      using "1.IH" [OF False, of cnt "digit_char (n mod 10) # rest"] by (simp add: eq)
    also have "\<dots> = parse_items tbl (Some ((?c * 10 ^ ?k + n div 10) * 10 + n mod 10)) rest"
      using digit_char_props [OF d] by simp
    finally show ?thesis by (simp only: ar) (simp add: eq)
  qed
qed

lemma not_digit_s: "\<not> is_digit (CHR ''s'')"
  by (simp add: is_digit_def)

lemma parse_gap:
  "tbl (CHR ''s'') \<noteq> None \<Longrightarrow>
   parse_items tbl None (digits n @ CHR ''s'' # rest) =
     bind_err (parse_items tbl None rest) (\<lambda>r. Inr ((n, CHR ''s'') # r))"
  by (simp add: parse_digits not_digit_s)

lemma entry_simps:
  "entry_fmt (Gap, a, b) = format_int (b - a) @ ''s''"
  "entry_fmt (Col c, a, b) = [col_char c]"
  "entry_item (Gap, a, b) = (nat (b - a), CHR ''s'')"
  "entry_item (Col c, a, b) = (1, col_char c)"
  "entry_ok (Gap, a, b) = (a < b)"
  "entry_ok (Col c, a, b) = known_column c"
  "entry_names (Gap, a, b) = [''c'' @ format_int a]"
  by (simp_all add: entry_fmt_def entry_item_def entry_ok_def entry_names_def)

lemma types_cases: "types t = Some ch \<Longrightarrow> ch \<in> set ''bBhHiIqQf''"
  by (auto simp: types_def split: if_splits)

lemma calcsize_type_chars:
  "calcsize ''b'' = Inr 1" "calcsize ''B'' = Inr 1" "calcsize ''h'' = Inr 2"
  "calcsize ''H'' = Inr 2" "calcsize ''i'' = Inr 4" "calcsize ''I'' = Inr 4"
  "calcsize ''q'' = Inr 8" "calcsize ''Q'' = Inr 8" "calcsize ''f'' = Inr 4"
  by code_simp+

lemma std_size_type_chars:
  "std_size (CHR ''b'') = Some 1" "std_size (CHR ''B'') = Some 1" "std_size (CHR ''h'') = Some 2"
  "std_size (CHR ''H'') = Some 2" "std_size (CHR ''i'') = Some 4" "std_size (CHR ''I'') = Some 4"
  "std_size (CHR ''q'') = Some 8" "std_size (CHR ''Q'') = Some 8" "std_size (CHR ''f'') = Some 4"
  "std_size (CHR ''s'') = Some 1"
  by (simp_all add: std_size_def)

lemma types_char:
  assumes "types t = Some ch"
  shows "\<not> is_digit ch \<and> \<not> is_space ch \<and> is_ascii ch \<and> ch \<noteq> CHR ''s''
       \<and> (\<exists>k. 0 < k \<and> calcsize [ch] = Inr k \<and> std_size ch = Some k)"
  using types_cases [OF assms]
  by (auto simp: is_digit_def is_space_def is_ascii_def calcsize_type_chars std_size_type_chars)

lemma known_column_char:
  assumes "known_column c"
  shows "\<not> is_digit (col_char c)" and "col_char c \<noteq> CHR ''s''"
    and "calcsize [col_char c] = Inr (col_size c)" and "0 < col_size c"
    and "\<not> is_space (col_char c)" and "is_ascii (col_char c)"
    and "std_size (col_char c) = Some (col_size c)"
proof -
  from assms obtain ch where ch: "types (c_type c) = Some ch"
    by (auto simp: known_column_def)
  from types_char [OF ch] obtain k where k: "0 < k" "calcsize [ch] = Inr k" "std_size ch = Some k"
    and nd: "\<not> is_digit ch" "ch \<noteq> CHR ''s''" "\<not> is_space ch" "is_ascii ch" by blast
  from ch nd show "\<not> is_digit (col_char c)" "col_char c \<noteq> CHR ''s''"
    "\<not> is_space (col_char c)" "is_ascii (col_char c)"
    by (simp_all add: col_char_def)
  from ch k show "calcsize [col_char c] = Inr (col_size c)" "0 < col_size c"
    "std_size (col_char c) = Some (col_size c)"
    by (simp_all add: col_char_def col_size_def)
qed

lemma parse_fmt:
  "\<forall>e\<in>set es. entry_ok e \<Longrightarrow>
     parse_items std_size None (concat (map entry_fmt es)) = Inr (map entry_item es)"
proof (induction es)
  case Nil
  then show ?case by simp
next
  case (Cons e es)
  then have IH: "parse_items std_size None (concat (map entry_fmt es)) = Inr (map entry_item es)"
    and ok: "entry_ok e" by simp_all
  obtain f a b where e: "e = (f, a, b)" by (cases e)
  show ?case
  proof (cases f)
    case Gap
    with ok e have "a < b" by (simp add: entry_simps)
    then have "entry_fmt e = digits (nat (b - a)) @ ''s''"
      using e Gap by (simp add: entry_simps format_int_def)
    then show ?thesis
      using IH e Gap
        parse_gap [of std_size "nat (b - a)" "concat (map entry_fmt es)"]
      by (simp add: entry_simps std_size_type_chars)
  next
    case (Col c)
    with ok e have k: "known_column c" by (simp add: entry_simps)
    from known_column_char [OF k] IH e Col show ?thesis
      by (simp add: entry_simps)
  qed
qed

lemma digits_ascii: "list_all is_ascii (digits n)"
proof (induction n rule: digits.induct)
  case (1 n)
  have d: "is_ascii (digit_char k)" if "k < 10" for k
  proof -
    from that have "k = 0 \<or> k = 1 \<or> k = 2 \<or> k = 3 \<or> k = 4 \<or> k = 5 \<or> k = 6 \<or> k = 7
        \<or> k = 8 \<or> k = 9" by arith
    then show ?thesis by (elim disjE) (simp_all add: is_ascii_def digit_char_def)
  qed
  show ?case
  proof (cases "n < 10")
    case True
    then show ?thesis using d [of n] by (simp add: digits.simps [of n])
  next
    case False
    with "1.IH" d [of "n mod 10"] show ?thesis by (simp add: digits.simps [of n])
  qed
qed

lemma fmt_ascii:
  "\<forall>e\<in>set es. entry_ok e \<Longrightarrow> list_all is_ascii (concat (map entry_fmt es))"
proof (induction es)
  case Nil
  then show ?case by simp
next
  case (Cons e es)
  then have IH: "list_all is_ascii (concat (map entry_fmt es))" and ok: "entry_ok e"
    by simp_all
  obtain f a b where e: "e = (f, a, b)" by (cases e)
  show ?case
  proof (cases f)
    case Gap
    with ok e have "a < b" by (simp add: entry_simps)
    then have "entry_fmt e = digits (nat (b - a)) @ ''s''"
      using e Gap by (simp add: entry_simps format_int_def)
    moreover have "is_ascii (CHR ''s'')" by (simp add: is_ascii_def)
    ultimately show ?thesis using IH digits_ascii [of "nat (b - a)"] by simp
  next
    case (Col c)
    with ok e have k: "known_column c" by (simp add: entry_simps)
    from known_column_char [OF k] IH e Col show ?thesis
      by (simp add: entry_simps)
  qed
qed

section \<open>The loop of \<^verbatim>\<open>newrowclass\<close>\<close>

lemma step_Inr:
  assumes "newrowclass_step s c = Inr s'"
  shows "known_column c
       \<and> gapstart s' = c_offset c + int (col_size c)
       \<and> newtableinfo s' = newtableinfo s @ map fst (spec_column_fields (gapstart s) [c])
       \<and> structstr s' = structstr s @ concat (map entry_fmt (spec_column_fields (gapstart s) [c]))
       \<and> colnames s' = colnames s @ concat (map entry_names (spec_column_fields (gapstart s) [c]))"
proof -
  let ?s1 = "if c_offset c > gapstart s then add_gap s (c_offset c) else s"
  from assms obtain names ch sz where
    names: "(if startswith (c_type c) ''bit''
             then bind_err (col_columns c) (\<lambda>bcs. Inr (colnames ?s1 @ [c_name c] @ map b_name bcs))
             else Inr (colnames ?s1 @ [c_name c])) = Inr names"
    and ch: "types (c_type c) = Some ch"
    and sz: "calcsize [ch] = Inr sz"
    and s': "s' = \<lparr>gapstart = c_offset c + int sz, structstr = structstr ?s1 @ [ch],
                   colnames = names, newtableinfo = newtableinfo ?s1 @ [Col c]\<rparr>"
    unfolding newrowclass_step_def Let_def
    by (auto simp: bind_err_Inr_iff split: option.splits)
  have known: "known_column c"
    using names ch
    by (auto simp: known_column_def col_columns_def bind_err_Inr_iff split: if_splits option.splits)
  have size: "col_size c = sz" and char: "col_char c = ch"
    using ch sz by (simp_all add: col_size_def col_char_def)
  have nm: "names = colnames ?s1 @ entry_names (Col c, c_offset c, c_offset c + int (col_size c))"
    using names
    by (auto simp: entry_names_def col_columns_def bind_err_Inr_iff split: if_splits option.splits)
  show ?thesis
  proof (cases "c_offset c > gapstart s")
    case True
    with s' known size char nm show ?thesis
      by (simp add: add_gap_def entry_simps)
  next
    case False
    with s' known size char nm show ?thesis
      by (simp add: entry_simps)
  qed
qed

lemma step_total:
  assumes "known_column c"
  shows "\<exists>s'. newrowclass_step s c = Inr s'"
proof -
  from assms obtain ch where ch: "types (c_type c) = Some ch"
    by (auto simp: known_column_def)
  from types_char [OF ch] obtain k where k: "calcsize [ch] = Inr k" by blast
  show ?thesis
  proof (cases "startswith (c_type c) ''bit''")
    case True
    with assms obtain bcs where "c_columns c = Some bcs" by (auto simp: known_column_def)
    with True ch k show ?thesis
      by (simp add: newrowclass_step_def Let_def col_columns_def)
  next
    case False
    with ch k show ?thesis by (simp add: newrowclass_step_def Let_def)
  qed
qed

lemma spec_column_fields_Cons:
  "spec_column_fields cur (c # cs) =
     spec_column_fields cur [c] @ spec_column_fields (c_offset c + int (col_size c)) cs"
  by simp

lemma loop_Inr:
  "newrowclass_loop s cs = Inr s' \<Longrightarrow>
     (\<forall>c\<in>set cs. known_column c)
   \<and> gapstart s' = spec_cursor (gapstart s) cs
   \<and> newtableinfo s' = newtableinfo s @ map fst (spec_column_fields (gapstart s) cs)
   \<and> structstr s' = structstr s @ concat (map entry_fmt (spec_column_fields (gapstart s) cs))
   \<and> colnames s' = colnames s @ concat (map entry_names (spec_column_fields (gapstart s) cs))"
proof (induction cs arbitrary: s)
  case Nil
  then show ?case by simp
next
  case (Cons c cs)
  then obtain s1 where 1: "newrowclass_step s c = Inr s1"
    and 2: "newrowclass_loop s1 cs = Inr s'"
    by (auto simp: bind_err_Inr_iff)
  note a = step_Inr [OF 1] and b = Cons.IH [OF 2]
  show ?case
    unfolding spec_column_fields_Cons [of "gapstart s" c cs]
    using a b by (simp del: spec_column_fields.simps)
qed

lemma loop_total:
  "\<forall>c\<in>set cs. known_column c \<Longrightarrow> \<exists>s'. newrowclass_loop s cs = Inr s'"
proof (induction cs arbitrary: s)
  case Nil
  then show ?case by simp
next
  case (Cons c cs)
  then have "known_column c" by simp
  from step_total [OF this] obtain s1 where "newrowclass_step s c = Inr s1" ..
  moreover from Cons obtain s' where "newrowclass_loop s1 cs = Inr s'" by fastforce
  ultimately show ?case by simp
qed

section \<open>Fields that tile the row\<close>

lemma entry_sized_simps:
  "entry_sized (Gap, a, b) = (a < b)"
  "entry_sized (Col c, a, b) = (known_column c \<and> b = a + int (col_size c))"
  by (simp_all add: entry_sized_def)

lemma entry_sized_ok: "entry_sized e \<Longrightarrow> entry_ok e"
  by (auto simp: entry_sized_def entry_ok_def split: prod.splits colinfo.splits)

lemma spec_column_fields_sized:
  "\<forall>c\<in>set cs. known_column c \<Longrightarrow> \<forall>e\<in>set (spec_column_fields cur cs). entry_sized e"
  by (induction cs arbitrary: cur) (auto simp: entry_sized_simps)

lemma spec_fields_sized:
  "\<forall>c\<in>set cs. known_column c \<Longrightarrow> \<forall>e\<in>set (spec_fields cs L). entry_sized e"
  using spec_column_fields_sized [of cs 0] by (auto simp: spec_fields_def entry_sized_simps)

lemma item_size_entry:
  "entry_sized (f, a, b) \<Longrightarrow> item_size False (entry_item (f, a, b)) = nat (b - a)"
proof (cases f)
  case Gap
  then show ?thesis
    by (simp add: entry_simps item_size_def code_size_def size_table_def std_size_type_chars)
next
  case (Col c)
  assume "entry_sized (f, a, b)"
  with Col have k: "known_column c" and b: "b = a + int (col_size c)"
    by (simp_all add: entry_sized_simps)
  from known_column_char [OF k] Col b show ?thesis
    by (simp add: entry_simps item_size_def code_size_def size_table_def)
qed

lemma align_standard: "align_to a (code_align False c) = a"
  by (simp add: align_to_def code_align_def)

lemma zip_spans:
  "tiles a F b \<Longrightarrow> 0 \<le> a \<Longrightarrow> \<forall>e\<in>set F. entry_sized e \<Longrightarrow>
     zip (map fst F)
       (map (\<lambda>(s, e). (int s, int e)) (item_spans False (nat a) (map entry_item F))) = F"
proof (induction F arbitrary: a)
  case Nil
  then show ?case by simp
next
  case (Cons x F)
  obtain f s e where x: "x = (f, s, e)" by (cases x)
  from Cons.prems x have s: "s = a" and lt: "s < e" and t: "tiles e F b"
    and sz: "entry_sized (f, s, e)" and rest: "\<forall>y\<in>set F. entry_sized y" by simp_all
  have w: "item_size False (entry_item (f, s, e)) = nat (e - s)"
    by (rule item_size_entry [OF sz])
  from s lt Cons.prems(2) have e0: "0 \<le> e" by simp
  have n: "nat a + nat (e - s) = nat e" using s lt Cons.prems(2) by simp
  from Cons.IH [OF t e0 rest] x w n s Cons.prems(2) e0 show ?case
    by (simp add: align_standard)
qed

lemma layout_end_tiles:
  "tiles a F b \<Longrightarrow> 0 \<le> a \<Longrightarrow> \<forall>e\<in>set F. entry_sized e \<Longrightarrow>
     int (layout_end False (nat a) (map entry_item F)) = b"
proof (induction F arbitrary: a)
  case Nil
  then show ?case by simp
next
  case (Cons x F)
  obtain f s e where x: "x = (f, s, e)" by (cases x)
  from Cons.prems x have s: "s = a" and lt: "s < e" and t: "tiles e F b"
    and sz: "entry_sized (f, s, e)" and rest: "\<forall>y\<in>set F. entry_sized y" by simp_all
  have w: "item_size False (entry_item (f, s, e)) = nat (e - s)"
    by (rule item_size_entry [OF sz])
  from s lt Cons.prems(2) have e0: "0 \<le> e" by simp
  have n: "nat a + nat (e - s) = nat e" using s lt Cons.prems(2) by simp
  from Cons.IH [OF t e0 rest] x w n show ?case
    by (simp add: align_standard)
qed

lemma tiles_append:
  "tiles a (F @ G) b \<longleftrightarrow> (\<exists>m. tiles a F m \<and> tiles m G b)"
  by (induction F arbitrary: a) auto

lemma tiles_spec_columns:
  "ascending cur cs \<Longrightarrow> \<forall>c\<in>set cs. known_column c \<Longrightarrow>
     tiles cur (spec_column_fields cur cs) (spec_cursor cur cs)"
proof (induction cs arbitrary: cur)
  case Nil
  then show ?case by simp
next
  case (Cons c cs)
  then have k: "known_column c" and le: "cur \<le> c_offset c"
    and IH: "tiles (c_offset c + int (col_size c))
               (spec_column_fields (c_offset c + int (col_size c)) cs)
               (spec_cursor (c_offset c + int (col_size c)) cs)" by simp_all
  from known_column_char(4) [OF k] le IH show ?case by auto
qed

lemma tiles_spec_fields:
  assumes "ascending 0 cs" and "\<forall>c\<in>set cs. known_column c" and "spec_cursor 0 cs \<le> L"
  shows "tiles 0 (spec_fields cs L) L"
  using tiles_spec_columns [OF assms(1,2)] assms(3)
  by (auto simp: spec_fields_def tiles_append)

lemma tiles_starts:
  "tiles a F b \<Longrightarrow>
     sorted_wrt (<) (map (\<lambda>(f, s, e). s) F) \<and> (\<forall>x\<in>set F. a \<le> (\<lambda>(f, s, e). s) x) \<and> a \<le> b"
proof (induction F arbitrary: a)
  case Nil
  then show ?case by simp
next
  case (Cons x F)
  obtain f s e where x: "x = (f, s, e)" by (cases x)
  with Cons.prems have s: "s = a" "s < e" and t: "tiles e F b" by simp_all
  from Cons.IH [OF t] s x show ?case by fastforce
qed

section \<open>What \<^verbatim>\<open>newrowclass\<close> returns\<close>

lemma Struct_standard:
  assumes "standard_mode ti" and "parse_items std_size None r = Inr its"
    and "list_all is_ascii r" and "int (layout_end False 0 its) \<le> ssize_t_max"
  shows "\<exists>st. Struct ((case ti_endianess ti of None \<Rightarrow> ''<'' | Some e \<Rightarrow> e) @ r) = Inr st
            \<and> \<not> st_native st \<and> st_items st = its"
  using assms
  by (auto simp: standard_mode_def Struct_def whichtable_def size_table_def is_ascii_def
           split: option.splits)

lemma finish_layout:
  assumes "newrowclass_loop \<lparr>gapstart = 0, structstr = pre, colnames = [], newtableinfo = []\<rparr>
             (ti_columns ti) = Inr s"
  defines "fin \<equiv> (if gapstart s < ti_row_length ti then add_gap s (ti_row_length ti) else s)"
  shows "(\<forall>c\<in>set (ti_columns ti). known_column c)
       \<and> newtableinfo fin = map fst (spec_fields (ti_columns ti) (ti_row_length ti))
       \<and> structstr fin = pre @ concat (map entry_fmt (spec_fields (ti_columns ti) (ti_row_length ti)))
       \<and> colnames fin = layout_names ti"
  using loop_Inr [OF assms(1)]
  by (simp add: fin_def add_gap_def spec_fields_def layout_names_def entry_simps)

lemma newrowclass_Inr:
  assumes "newrowclass ti = Inr cls"
  shows "(\<forall>c\<in>set (ti_columns ti). known_column c)
       \<and> namedtuple (layout_names ti) = Inr (row_fields cls)
       \<and> columns cls = map fst (spec_fields (ti_columns ti) (ti_row_length ti))
       \<and> Struct (layout_format ti) = Inr (struct_obj cls)"
proof -
  let ?pre = "case ti_endianess ti of None \<Rightarrow> ''<'' | Some e \<Rightarrow> e"
  from assms obtain s fs st where
    loop: "newrowclass_loop \<lparr>gapstart = 0, structstr = ?pre, colnames = [], newtableinfo = []\<rparr>
             (ti_columns ti) = Inr s"
    and nt: "namedtuple (colnames (if gapstart s < ti_row_length ti
                                   then add_gap s (ti_row_length ti) else s)) = Inr fs"
    and st: "Struct (structstr (if gapstart s < ti_row_length ti
                                then add_gap s (ti_row_length ti) else s)) = Inr st"
    and cls: "cls = \<lparr>row_fields = fs,
                     columns = newtableinfo (if gapstart s < ti_row_length ti
                                             then add_gap s (ti_row_length ti) else s),
                     struct_obj = st\<rparr>"
    by (auto simp: newrowclass_def bind_err_Inr_iff Let_def)
  note f = finish_layout [OF loop]
  from f nt st cls show ?thesis by (simp add: layout_format_def)
qed

lemma newrowclass_total:
  assumes "\<forall>c\<in>set (ti_columns ti). known_column c" and "namedtuple (layout_names ti) = Inr fs"
    and "Struct (layout_format ti) = Inr st"
  shows "newrowclass ti =
           Inr \<lparr>row_fields = fs,
                columns = map fst (spec_fields (ti_columns ti) (ti_row_length ti)),
                struct_obj = st\<rparr>"
proof -
  let ?pre = "case ti_endianess ti of None \<Rightarrow> ''<'' | Some e \<Rightarrow> e"
  from loop_total [OF assms(1)] obtain s where
    loop: "newrowclass_loop \<lparr>gapstart = 0, structstr = ?pre, colnames = [], newtableinfo = []\<rparr>
             (ti_columns ti) = Inr s" by blast
  note f = finish_layout [OF loop]
  from f assms(2,3) loop show ?thesis
    by (simp add: newrowclass_def Let_def layout_format_def)
qed

text \<open>
  C3, as the code has it. \<^verbatim>\<open>newrowclass\<close> validates neither offsets nor the row length
  nor bit ranges: it returns a row class exactly when every column has a type of the
  \<^verbatim>\<open>types\<close> table (and, for a bit type, the key \<^verbatim>\<open>columns\<close>), \<^verbatim>\<open>namedtuple\<close> accepts the
  field names, and \<^verbatim>\<open>Struct\<close> accepts the format string. No condition compares the byte
  range of a column with another column or with the row length, or the range of a bit
  sub-field with the width of its parent.
\<close>

theorem newrowclass_no_validation:
  "(\<exists>cls. newrowclass ti = Inr cls) \<longleftrightarrow>
     (\<forall>c\<in>set (ti_columns ti). known_column c)
     \<and> (\<exists>fs. namedtuple (layout_names ti) = Inr fs)
     \<and> (\<exists>st. Struct (layout_format ti) = Inr st)"
proof
  assume "\<exists>cls. newrowclass ti = Inr cls"
  then obtain cls where "newrowclass ti = Inr cls" ..
  from newrowclass_Inr [OF this] show
    "(\<forall>c\<in>set (ti_columns ti). known_column c)
     \<and> (\<exists>fs. namedtuple (layout_names ti) = Inr fs)
     \<and> (\<exists>st. Struct (layout_format ti) = Inr st)" by blast
next
  assume "(\<forall>c\<in>set (ti_columns ti). known_column c)
     \<and> (\<exists>fs. namedtuple (layout_names ti) = Inr fs)
     \<and> (\<exists>st. Struct (layout_format ti) = Inr st)"
  then obtain fs st where "\<forall>c\<in>set (ti_columns ti). known_column c"
    "namedtuple (layout_names ti) = Inr fs" "Struct (layout_format ti) = Inr st" by blast
  from newrowclass_total [OF this] show "\<exists>cls. newrowclass ti = Inr cls" by blast
qed

text \<open>
  The three conditions hold for \<open>ex_overlap\<close>, whose columns overlap, and it is compiled.
\<close>

theorem newrowclass_no_validation_witness:
  "list_all known_column (ti_columns ex_overlap)
   \<and> namedtuple (layout_names ex_overlap) = Inr [''a'', ''b'', ''c3'']
   \<and> Struct (layout_format ex_overlap) = Inr (struct_obj ex_overlap_cls)
   \<and> (\<exists>cls. newrowclass ex_overlap = Inr cls)"
proof -
  have h1: "list_all known_column (ti_columns ex_overlap)" by code_simp
  then have h1': "\<forall>c\<in>set (ti_columns ex_overlap). known_column c"
    by (simp add: list_all_iff)
  have h2: "namedtuple (layout_names ex_overlap) = Inr [''a'', ''b'', ''c3'']" by code_simp
  have h3: "Struct (layout_format ex_overlap) = Inr (struct_obj ex_overlap_cls)" by code_simp
  from h1' h2 h3 newrowclass_no_validation [of ex_overlap]
  have "\<exists>cls. newrowclass ex_overlap = Inr cls" by blast
  with h1 h2 h3 show ?thesis by blast
qed

text \<open>
  C3, as stated, fails: \<^verbatim>\<open>newrowclass\<close> returns a row class for \<open>ex_overlap\<close>, whose
  column \<^verbatim>\<open>b\<close> lies inside column \<^verbatim>\<open>a\<close> (the struct then has 10 bytes for a row length of
  8), for \<open>ex_past_end\<close>, whose column ends at byte 6 of a row of 4 bytes, and for
  \<open>ex_bit_wide\<close>, whose sub-field covers the bits 6 to 9 of an 8-bit parent.
\<close>

theorem newrowclass_accepts_invalid_counterexample:
  "newrowclass ex_overlap = Inr ex_overlap_cls
   \<and> struct_size (struct_obj ex_overlap_cls) = 10
   \<and> newrowclass ex_past_end = Inr ex_past_end_cls
   \<and> struct_size (struct_obj ex_past_end_cls) = 6
   \<and> newrowclass ex_bit_wide = Inr ex_bit_wide_cls
   \<and> feed ex_bit_wide_cls [0xC0] None = Inr [PInt 0xC0, PInt 3]"
  by code_simp

text \<open>
  C8, as the code has it. Let the columns be in ascending offset order without overlap and
  end within the row length, let their types be in the \<^verbatim>\<open>types\<close> table, let \<^verbatim>\<open>namedtuple\<close>
  accept the field names (the names of the columns and sub-fields and the names
  \<^verbatim>\<open>c<offset>\<close> of the gaps), let \<^verbatim>\<open>endianess\<close> be absent or one of \<^verbatim>\<open><\<close>, \<^verbatim>\<open>>\<close>, \<^verbatim>\<open>=\<close>, \<^verbatim>\<open>!\<close>, and
  let the row length not exceed \<^verbatim>\<open>sys.maxsize\<close>. Then \<^verbatim>\<open>newrowclass\<close> returns a row class,
  and its fields are those the specification describes: a gap from the cursor to each
  column that starts after it, the column at its declared offset, a trailing gap up to
  the row length. They tile the bytes from 0 to the row length, their start offsets
  increase strictly, and the struct has the row length as its size.
\<close>

theorem compiled_fields_partition:
  assumes "ascending 0 (ti_columns ti)"
    and "spec_cursor 0 (ti_columns ti) \<le> ti_row_length ti"
    and "\<forall>c\<in>set (ti_columns ti). known_column c"
    and "namedtuple (layout_names ti) = Inr fs"
    and "standard_mode ti"
    and "ti_row_length ti \<le> ssize_t_max"
  shows "\<exists>cls. newrowclass ti = Inr cls
       \<and> layout_fields cls = spec_fields (ti_columns ti) (ti_row_length ti)
       \<and> tiles 0 (layout_fields cls) (ti_row_length ti)
       \<and> sorted_wrt (<) (map (\<lambda>(f, s, e). s) (layout_fields cls))
       \<and> int (struct_size (struct_obj cls)) = ti_row_length ti"
proof -
  let ?F = "spec_fields (ti_columns ti) (ti_row_length ti)"
  let ?cls = "\<lambda>st. \<lparr>row_fields = fs, columns = map fst ?F, struct_obj = st\<rparr>"
  note known = assms(3)
  note sized = spec_fields_sized [OF known, of "ti_row_length ti"]
  from sized entry_sized_ok have ok: "\<forall>e\<in>set ?F. entry_ok e" by blast
  note t = tiles_spec_fields [OF assms(1) known assms(2)]
  from layout_end_tiles [OF t _ sized]
  have le: "int (layout_end False 0 (map entry_item ?F)) = ti_row_length ti" by simp
  with assms(6) have bound: "int (layout_end False 0 (map entry_item ?F)) \<le> ssize_t_max"
    by simp
  from Struct_standard [OF assms(5) parse_fmt [OF ok] fmt_ascii [OF ok] bound]
  obtain st where st: "Struct (layout_format ti) = Inr st" "\<not> st_native st"
    "st_items st = map entry_item ?F"
    by (auto simp: layout_format_def)
  from newrowclass_total [OF known assms(4) st(1)]
  have cls: "newrowclass ti = Inr (?cls st)" .
  from zip_spans [OF t _ sized] st
  have lf: "layout_fields (?cls st) = ?F" by (simp add: layout_fields_def)
  from le st have sz: "int (struct_size (struct_obj (?cls st))) = ti_row_length ti"
    by (simp add: struct_size_def)
  from tiles_starts [OF t]
  have so: "sorted_wrt (<) (map (\<lambda>(f, s, e). s) ?F)" by simp
  from cls lf t so sz show ?thesis by (intro exI [of _ "?cls st"]) simp
qed

text \<open>
  The table \<open>ex_gaps\<close> has two columns with a gap before each and a trailing gap; the
  same table with the prefix \<^verbatim>\<open>>\<close> is compiled too.
\<close>

theorem compiled_fields_partition_witness:
  "ascending 0 (ti_columns ex_gaps)
   \<and> spec_cursor 0 (ti_columns ex_gaps) \<le> ti_row_length ex_gaps
   \<and> list_all known_column (ti_columns ex_gaps)
   \<and> namedtuple (layout_names ex_gaps) = Inr [''c0'', ''a'', ''c4'', ''b'', ''c6'']
   \<and> standard_mode ex_gaps
   \<and> ti_row_length ex_gaps \<le> ssize_t_max
   \<and> newrowclass ex_gaps = Inr ex_gaps_cls
   \<and> layout_fields ex_gaps_cls =
       [(Gap, 0, 2), (Col (plain_column ''a'' ''u16'' 2), 2, 4), (Gap, 4, 5),
        (Col (plain_column ''b'' ''u8'' 5), 5, 6), (Gap, 6, 8)]
   \<and> tiles 0 (layout_fields ex_gaps_cls) (ti_row_length ex_gaps)
   \<and> int (struct_size (struct_obj ex_gaps_cls)) = ti_row_length ex_gaps
   \<and> (\<exists>cls. newrowclass ex_gaps_be = Inr cls
         \<and> tiles 0 (layout_fields cls) (ti_row_length ex_gaps_be))"
proof -
  have h1: "ascending 0 (ti_columns ex_gaps)" by code_simp
  have h2: "spec_cursor 0 (ti_columns ex_gaps) \<le> ti_row_length ex_gaps" by code_simp
  have h3: "list_all known_column (ti_columns ex_gaps)" by code_simp
  then have h3': "\<forall>c\<in>set (ti_columns ex_gaps). known_column c" by (simp add: list_all_iff)
  have h4: "namedtuple (layout_names ex_gaps) = Inr [''c0'', ''a'', ''c4'', ''b'', ''c6'']"
    by code_simp
  have h5: "standard_mode ex_gaps" by code_simp
  have h6: "ti_row_length ex_gaps \<le> ssize_t_max" by code_simp
  have h7: "newrowclass ex_gaps = Inr ex_gaps_cls" by code_simp
  have h8: "spec_fields (ti_columns ex_gaps) (ti_row_length ex_gaps) =
       [(Gap, 0, 2), (Col (plain_column ''a'' ''u16'' 2), 2, 4), (Gap, 4, 5),
        (Col (plain_column ''b'' ''u8'' 5), 5, 6), (Gap, 6, 8)]" by code_simp
  from compiled_fields_partition [OF h1 h2 h3' h4 h5 h6] h7
  have r: "layout_fields ex_gaps_cls = spec_fields (ti_columns ex_gaps) (ti_row_length ex_gaps)
       \<and> tiles 0 (layout_fields ex_gaps_cls) (ti_row_length ex_gaps)
       \<and> int (struct_size (struct_obj ex_gaps_cls)) = ti_row_length ex_gaps" by auto
  from r h8 have a: "layout_fields ex_gaps_cls =
       [(Gap, 0, 2), (Col (plain_column ''a'' ''u16'' 2), 2, 4), (Gap, 4, 5),
        (Col (plain_column ''b'' ''u8'' 5), 5, 6), (Gap, 6, 8)]" by simp
  have b1: "ascending 0 (ti_columns ex_gaps_be)" by code_simp
  have b2: "spec_cursor 0 (ti_columns ex_gaps_be) \<le> ti_row_length ex_gaps_be" by code_simp
  have b3: "\<forall>c\<in>set (ti_columns ex_gaps_be). known_column c"
    using h3' by (simp add: ex_gaps_be_def)
  have b4: "namedtuple (layout_names ex_gaps_be) = Inr [''c0'', ''a'', ''c4'', ''b'', ''c6'']"
    by code_simp
  have b5: "standard_mode ex_gaps_be" by code_simp
  have b6: "ti_row_length ex_gaps_be \<le> ssize_t_max" by code_simp
  from compiled_fields_partition [OF b1 b2 b3 b4 b5 b6]
  have c: "\<exists>cls. newrowclass ex_gaps_be = Inr cls
         \<and> tiles 0 (layout_fields cls) (ti_row_length ex_gaps_be)" by blast
  from h1 h2 h3 h4 h5 h6 h7 a r c show ?thesis by blast
qed

text \<open>
  C8, as stated, fails. The columns of \<open>ex_clash\<close> are ascending, do not overlap and end
  within the row, and no layout is compiled: the gap that starts at byte 2 gets the name
  \<^verbatim>\<open>c2\<close>, which the first column has, and \<^verbatim>\<open>namedtuple\<close> raises \<^verbatim>\<open>ValueError\<close>. The columns
  of \<open>ex_native\<close> fill the five bytes of the row; with the prefix \<^verbatim>\<open>@\<close> the struct puts
  three bytes of padding in front of the second column and has eight bytes.
\<close>

theorem partition_fails_counterexample:
  "ascending 0 (ti_columns ex_clash)
   \<and> spec_cursor 0 (ti_columns ex_clash) \<le> ti_row_length ex_clash
   \<and> list_all known_column (ti_columns ex_clash)
   \<and> newrowclass ex_clash = Inl ValueError
   \<and> ascending 0 (ti_columns ex_native)
   \<and> spec_cursor 0 (ti_columns ex_native) = ti_row_length ex_native
   \<and> ti_row_length ex_native = 5
   \<and> newrowclass ex_native = Inr ex_native_cls
   \<and> layout_fields ex_native_cls =
       [(Col (plain_column ''a'' ''u8'' 0), 0, 1), (Col (plain_column ''b'' ''u32'' 1), 4, 8)]
   \<and> struct_size (struct_obj ex_native_cls) = 8"
  by code_simp

section \<open>The SCR container: header, row windows and loading\<close>

lemma slice_nonneg:
  "0 \<le> i \<Longrightarrow> 0 \<le> j \<Longrightarrow> slice bs i j = take (nat j - nat i) (drop (nat i) bs)"
  by (cases "nat i < length bs"; cases "nat j < length bs")
     (simp_all add: slice_def slice_index_def min_def)

lemma length_slice:
  "0 \<le> i \<Longrightarrow> 0 \<le> k \<Longrightarrow> length (slice bs i (i + k)) = min (nat k) (length bs - nat i)"
  by (simp add: slice_nonneg nat_add_distrib)

lemma le_int_nonneg: "0 \<le> le_int bs"
  by (induction bs) simp_all

lemma Struct_I:
  "Struct ''<I'' =
     Inr \<lparr>st_format = ''<I'', st_order = LittleEndian, st_native = False,
          st_items = [(1, CHR ''I'')]\<rparr>"
  by code_simp

lemma Struct_H:
  "Struct ''<H'' =
     Inr \<lparr>st_format = ''<H'', st_order = LittleEndian, st_native = False,
          st_items = [(1, CHR ''H'')]\<rparr>"
  by code_simp

lemma Struct_3I:
  "Struct ''<3I'' =
     Inr \<lparr>st_format = ''<3I'', st_order = LittleEndian, st_native = False,
          st_items = [(3, CHR ''I'')]\<rparr>"
  by code_simp

lemma Struct_II:
  "Struct ''<II'' =
     Inr \<lparr>st_format = ''<II'', st_order = LittleEndian, st_native = False,
          st_items = [(1, CHR ''I''), (1, CHR ''I'')]\<rparr>"
  by code_simp

lemma unpack1_I:
  "unpack1 ''<I'' bs = (if length bs = 4 then Inr (le_int bs) else Inl StructError)"
  by (simp add: unpack1_def struct_unpack_def Struct_I unpack_def struct_size_def item_size_def
      code_size_def size_table_def std_size_def code_align_def align_to_def unpack_value_def
      is_signed_def bytes_int_def as_int_def unmodelled_code_def)

lemma unpack1_H:
  "unpack1 ''<H'' bs = (if length bs = 2 then Inr (le_int bs) else Inl StructError)"
  by (simp add: unpack1_def struct_unpack_def Struct_H unpack_def struct_size_def item_size_def
      code_size_def size_table_def std_size_def code_align_def align_to_def unpack_value_def
      is_signed_def bytes_int_def as_int_def unmodelled_code_def)

lemma unpack_3I:
  "struct_unpack ''<3I'' bs =
     (if length bs = 12 then
        Inr [PInt (le_int (take 4 bs)), PInt (le_int (take 4 (drop 4 bs))),
             PInt (le_int (take 4 (drop 8 bs)))]
      else Inl StructError)"
  by (simp add: struct_unpack_def Struct_3I unpack_def struct_size_def item_size_def
      code_size_def size_table_def std_size_def code_align_def align_to_def unpack_value_def
      is_signed_def bytes_int_def unmodelled_code_def numeral_3_eq_3)

lemma unpack_II:
  "struct_unpack ''<II'' bs =
     (if length bs = 8 then
        Inr [PInt (le_int (take 4 bs)), PInt (le_int (take 4 (drop 4 bs)))]
      else Inl StructError)"
  by (simp add: struct_unpack_def Struct_II unpack_def struct_size_def item_size_def
      code_size_def size_table_def std_size_def code_align_def align_to_def unpack_value_def
      is_signed_def bytes_int_def unmodelled_code_def)

text \<open>
  \<^verbatim>\<open>SCR.__init__\<close> succeeds exactly when its two reads lie within the buffer, and fails
  with \<^verbatim>\<open>struct.error\<close> otherwise; it compares nothing with the length of the buffer.
\<close>

lemma SCR_init_eq:
  "SCR_init raw =
     (if header_readable raw then
        Inr (SCR_object raw
               (le_int (take 4 (slice raw (le_int (slice raw 0x14 0x18))
                                  (le_int (slice raw 0x14 0x18) + 12))))
               (le_int (take 4 (drop 4 (slice raw (le_int (slice raw 0x14 0x18))
                                          (le_int (slice raw 0x14 0x18) + 12)))))
               (le_int (take 4 (drop 8 (slice raw (le_int (slice raw 0x14 0x18))
                                          (le_int (slice raw 0x14 0x18) + 12))))))
      else Inl StructError)"
proof -
  have a: "length (slice raw 0x14 0x18) = 4 \<longleftrightarrow> 0x18 \<le> length raw"
    using length_slice [of "0x14" 4 raw] by auto
  have b: "length (slice raw t (t + 12)) = 12 \<longleftrightarrow> nat t + 12 \<le> length raw" if "0 \<le> t" for t
    using length_slice [of t 12 raw] that by auto
  show ?thesis
    by (simp add: SCR_init_def unpack1_I unpack_3I a b [OF le_int_nonneg] header_readable_def)
qed







text \<open>
  C6, as the code has it. \<^verbatim>\<open>load\<close> raises \<^verbatim>\<open>UnsupportedSCRError\<close> when the magic is
  neither at byte 0 nor at byte \<open>0x10\<close>. Otherwise it passes a buffer that starts with the
  magic to \<^verbatim>\<open>SCR\<close> (the whole file when the magic is at byte 0, also when it is at
  \<open>0x10\<close> as well; else the file from byte \<open>0x10\<close>), and succeeds when the header reads of
  \<^verbatim>\<open>SCR.__init__\<close> lie within that buffer, and raises \<^verbatim>\<open>struct.error\<close> when they do not.
\<close>

theorem load_outcome:
  "(take 4 file \<noteq> magic \<and> take 4 (drop 16 file) \<noteq> magic \<longrightarrow>
      load file = Inl UnsupportedSCRError)
   \<and> (take 4 file = magic \<or> take 4 (drop 16 file) = magic \<longrightarrow>
        (let raw = (if take 4 file = magic then file else drop 16 file) in
           take 4 raw = magic
           \<and> (header_readable raw \<longrightarrow> (\<exists>self. load file = Inr self \<and> scr_raw self = raw))
           \<and> (\<not> header_readable raw \<longrightarrow> load file = Inl StructError)))"
  by (auto simp: load_def SCR_init_eq Let_def)

text \<open>
  A container behind sixteen other bytes is loaded from byte \<open>0x10\<close>; a file with another
  pattern at both positions is refused.
\<close>

theorem load_outcome_witness:
  "take 4 ex_wrapped_file \<noteq> magic
   \<and> take 4 (drop 16 ex_wrapped_file) = magic
   \<and> header_readable (drop 16 ex_wrapped_file)
   \<and> (\<exists>self. load ex_wrapped_file = Inr self \<and> scr_raw self = drop 16 ex_wrapped_file)
   \<and> take 4 ex_other_file \<noteq> magic
   \<and> take 4 (drop 16 ex_other_file) \<noteq> magic
   \<and> load ex_other_file = Inl UnsupportedSCRError"
proof -
  have a: "take 4 ex_wrapped_file \<noteq> magic" by code_simp
  have b: "take 4 (drop 16 ex_wrapped_file) = magic" by code_simp
  have c: "header_readable (drop 16 ex_wrapped_file)" by code_simp
  have d: "take 4 ex_other_file \<noteq> magic" by code_simp
  have e: "take 4 (drop 16 ex_other_file) \<noteq> magic" by code_simp
  from load_outcome [of ex_wrapped_file] a b c
  have f: "\<exists>self. load ex_wrapped_file = Inr self \<and> scr_raw self = drop 16 ex_wrapped_file"
    by (simp add: Let_def)
  from load_outcome [of ex_other_file] d e
  have g: "load ex_other_file = Inl UnsupportedSCRError" by blast
  from a b c d e f g show ?thesis by blast
qed

text \<open>
  C6, as stated, fails on the file that consists of the magic alone: the magic is at
  byte 0 and \<^verbatim>\<open>load\<close> raises \<^verbatim>\<open>struct.error\<close>.
\<close>

theorem load_magic_only_counterexample:
  "take 4 ex_magic_only_file = magic \<and> load ex_magic_only_file = Inl StructError"
  by code_simp

section \<open>The text decoder \<^verbatim>\<open>getstring\<close>\<close>

lemma getstring_loop_Continue:
  "getstring_step raw pos strings = Inr (Continue p s) \<Longrightarrow>
     getstring_loop raw pos strings = getstring_loop raw p s"
  by (subst getstring_loop.simps) simp

lemma getstring_loop_Break:
  "getstring_step raw pos strings = Inr Break \<Longrightarrow>
     getstring_loop raw pos strings = Some (Inr (concat strings))"
  by (subst getstring_loop.simps) simp

lemma getstring_loop_Inl:
  "getstring_step raw pos strings = Inl e \<Longrightarrow> getstring_loop raw pos strings = Some (Inl e)"
  by (subst getstring_loop.simps) simp

lemma slice_past_end: "int (length bs) \<le> i \<Longrightarrow> slice bs i j = []"
  by (simp add: slice_def slice_index_def)

lemma step_past_end:
  "int (length raw) \<le> pos \<Longrightarrow>
     getstring_step raw pos strings = Inr (Continue (pos + 2) (strings @ [[]]))"
  by (simp add: getstring_step_def slice_past_end decode_utf16le_def)

lemma getstring_loop_in_buffer:
  assumes "getstring_loop raw pos strings = Some y"
  shows "pos < int (length raw)"
proof (rule getstring_loop.raw_induct
    [where P = "\<lambda>raw pos strings y. pos < int (length raw)", OF _ assms], goal_cases)
  case (1 f raw pos strings y)
  show ?case
  proof (rule ccontr)
    assume "\<not> pos < int (length raw)"
    then have le: "int (length raw) \<le> pos" by simp
    from 1(2) step_past_end [OF le, of strings]
    have "f raw (pos + 2) (strings @ [[]]) = Some y" by simp
    from 1(1) [OF this] le show False by simp
  qed
qed

lemma getstring_loop_past_end:
  "int (length raw) \<le> pos \<Longrightarrow> getstring_loop raw pos strings = None"
  using getstring_loop_in_buffer [of raw pos strings] by (cases "getstring_loop raw pos strings") auto

lemma unpack1_H_Inr: "unpack1 ''<H'' bs = Inr n \<Longrightarrow> 0 \<le> n"
  by (auto simp: unpack1_H le_int_nonneg split: if_splits)

lemma unpack1_I_Inr: "unpack1 ''<I'' bs = Inr n \<Longrightarrow> 0 \<le> n"
  by (auto simp: unpack1_I le_int_nonneg split: if_splits)

lemma branch_E9_Inr:
  assumes "branch_E9 raw pos strings = Inr st"
  shows "\<exists>p s. st = Continue p s \<and> pos \<le> p"
  using assms
  by (auto simp: branch_E9_def bind_err_Inr_iff Let_def split: if_splits dest!: unpack1_H_Inr)

lemma choices_mono:
  "choices raw n pos strings = Inr (p, s) \<Longrightarrow> pos \<le> p"
proof (induction n arbitrary: pos strings)
  case 0
  then show ?case by simp
next
  case (Suc n)
  from Suc.prems obtain bc s1 where
    bc: "unpack1 ''<H'' (slice raw (pos + 4) (pos + 6)) = Inr bc"
    and r: "choices raw n (pos + 8 + bc)
              (strings @ [s1] @ (if n \<noteq> 0 then [ascii '' / ''] else [])) = Inr (p, s)"
    by (auto simp: bind_err_Inr_iff)
  from Suc.IH [OF r] unpack1_H_Inr [OF bc] show ?case by simp
qed

lemma branch_F5_Inr:
  assumes "branch_F5 raw pos strings = Inr st"
  shows "\<exists>p s. st = Continue p s \<and> pos \<le> p"
proof -
  from assms obtain cc p s0 s where
    cc: "unpack1 ''<I'' (slice raw (pos + 12) (pos + 16)) = Inr cc"
    and ch: "choices raw (nat cc) (pos + 16 + 4 * cc) s0 = Inr (p, s)"
    and st: "st = Continue p (s @ [ascii '')''])"
    by (auto simp: branch_F5_def bind_err_Inr_iff)
  from choices_mono [OF ch] unpack1_I_Inr [OF cc] st show ?thesis by simp
qed

lemma branch_F6_Inr:
  assumes "branch_F6 raw pos strings = Inr st"
  shows "\<exists>p s. st = Continue p s \<and> pos \<le> p"
  using assms
  by (auto simp: branch_F6_def unpack_II bind_err_Inr_iff format_val_def split: if_splits)

lemma branch_F9_Inr:
  assumes "branch_F9 raw pos strings = Inr st"
  shows "\<exists>p s. st = Continue p s \<and> pos \<le> p"
  using assms by (auto simp: branch_F9_def bind_err_Inr_iff)

lemma branch_not_Break:
  "branch_E9 raw pos strings \<noteq> Inr Break" "branch_F5 raw pos strings \<noteq> Inr Break"
  "branch_F6 raw pos strings \<noteq> Inr Break" "branch_F9 raw pos strings \<noteq> Inr Break"
  using branch_E9_Inr [of raw pos strings Break] branch_F5_Inr [of raw pos strings Break]
    branch_F6_Inr [of raw pos strings Break] branch_F9_Inr [of raw pos strings Break]
  by auto

lemma step_Break:
  assumes "getstring_step raw pos strings = Inr Break"
  shows "slice raw pos (pos + 2) = [0, 0]"
  using assms
  by (simp add: getstring_step_def bind_err_Inr_iff branch_not_Break split: if_splits)

lemma step_Continue_mono:
  assumes "getstring_step raw pos strings = Inr (Continue p s)"
  shows "pos \<le> p"
proof -
  note bs = branch_E9_Inr [of raw pos strings "Continue p s"]
    branch_F5_Inr [of raw pos strings "Continue p s"]
    branch_F6_Inr [of raw pos strings "Continue p s"]
    branch_F9_Inr [of raw pos strings "Continue p s"]
  from assms bs show ?thesis
    by (auto simp: getstring_step_def bind_err_Inr_iff dest: unpack1_H_Inr split: if_splits)
qed

lemma null_unit_in_buffer:
  assumes "slice raw p (p + 2) = [0, 0]" "0 \<le> p"
  shows "p + 2 \<le> int (length raw)"
  using length_slice [of p 2 raw] assms by auto

lemma getstring_loop_returns_at_null:
  assumes "getstring_loop raw pos strings = Some y"
  shows "\<forall>r. y = Inr r \<longrightarrow> (\<exists>p. pos \<le> p \<and> slice raw p (p + 2) = [0, 0])"
proof (rule getstring_loop.raw_induct
    [where P = "\<lambda>raw pos strings y.
       \<forall>r. y = Inr r \<longrightarrow> (\<exists>p. pos \<le> p \<and> slice raw p (p + 2) = [0, 0])", OF _ assms],
    goal_cases)
  case (1 f raw pos strings y)
  show ?case
  proof (cases "getstring_step raw pos strings")
    case (Inl e)
    with 1(2) show ?thesis by auto
  next
    case (Inr st)
    show ?thesis
    proof (cases st)
      case Break
      with Inr step_Break [of raw pos strings] show ?thesis by auto
    next
      case (Continue p s)
      with Inr 1(2) have "f raw p s = Some y" by simp
      from 1(1) [OF this]
      have ih: "\<forall>r. y = Inr r \<longrightarrow> (\<exists>q. p \<le> q \<and> slice raw q (q + 2) = [0, 0])" .
      from Inr Continue have le: "pos \<le> p" by (intro step_Continue_mono) simp
      show ?thesis
      proof (intro allI impI)
        fix r
        assume "y = Inr r"
        with ih obtain q where q: "p \<le> q" "slice raw q (q + 2) = [0, 0]" by blast
        from q le have "pos \<le> q \<and> slice raw q (q + 2) = [0, 0]" by simp
        then show "\<exists>p. pos \<le> p \<and> slice raw p (p + 2) = [0, 0]" ..
      qed
    qed
  qed
qed

lemma slice_at_prefix:
  "0 \<le> k \<Longrightarrow> slice (pre @ xs) (int (length pre)) (int (length pre) + k) = take (nat k) xs"
  by (simp add: slice_nonneg nat_add_distrib)

lemma plain_unit_bytes:
  assumes "plain_unit u"
  shows "uint (word_of_int u :: byte) + 256 * uint (word_of_int (u div 256) :: byte) = u"
    and "(word_of_int (u div 256) :: byte) \<noteq> 0xFF"
    and "\<not> ((word_of_int u :: byte) = 0 \<and> (word_of_int (u div 256) :: byte) = 0)"
proof -
  from assms have r: "0 < u" "u < 65536" "u div 256 \<noteq> 255"
    by (auto simp: plain_unit_def)
  then have d: "0 \<le> u div 256" "u div 256 < 256" by auto
  have lo: "uint (word_of_int u :: byte) = u mod 256"
    by (simp add: uint_word_of_int)
  have hi: "uint (word_of_int (u div 256) :: byte) = u div 256"
    using d by (simp add: uint_word_of_int)
  show "uint (word_of_int u :: byte) + 256 * uint (word_of_int (u div 256) :: byte) = u"
    by (simp add: lo hi)
  show "(word_of_int (u div 256) :: byte) \<noteq> 0xFF"
  proof
    assume "(word_of_int (u div 256) :: byte) = 0xFF"
    then have "uint (word_of_int (u div 256) :: byte) = uint (0xFF :: byte)" by simp
    with hi r show False by simp
  qed
  show "\<not> ((word_of_int u :: byte) = 0 \<and> (word_of_int (u div 256) :: byte) = 0)"
  proof
    assume a: "(word_of_int u :: byte) = 0 \<and> (word_of_int (u div 256) :: byte) = 0"
    then have "uint (word_of_int u :: byte) = 0" "uint (word_of_int (u div 256) :: byte) = 0"
      by simp_all
    with lo hi have "u mod 256 = 0" "u div 256 = 0" by simp_all
    then have "u = 0" by (metis add.right_neutral mult_div_mod_eq mult_zero_right)
    with r show False by simp
  qed
qed

lemma decode_plain_unit:
  assumes "plain_unit u"
  shows "decode_utf16le [word_of_int u, word_of_int (u div 256)] = Inr [nat u]"
  using assms plain_unit_bytes(1) [OF assms]
  by (auto simp: decode_utf16le_def plain_unit_def)

lemma step_plain_unit:
  assumes "plain_unit u"
  shows "getstring_step (pre @ word_of_int u # word_of_int (u div 256) # rest)
           (int (length pre)) strings
         = Inr (Continue (int (length pre) + 2) (strings @ [[nat u]]))"
proof -
  note b = plain_unit_bytes [OF assms]
  have s4: "slice (pre @ word_of_int u # word_of_int (u div 256) # rest)
              (int (length pre)) (int (length pre) + 4)
            = word_of_int u # word_of_int (u div 256) # take 2 rest"
    using slice_at_prefix [of 4 pre] by (simp add: numeral_eq_Suc)
  have s2: "slice (pre @ word_of_int u # word_of_int (u div 256) # rest)
              (int (length pre)) (int (length pre) + 2)
            = [word_of_int u, word_of_int (u div 256)]"
    using slice_at_prefix [of 2 pre] by (simp add: numeral_eq_Suc)
  show ?thesis
    unfolding getstring_step_def s4 s2 using b(2,3)
    by (simp add: decode_plain_unit [OF assms])
qed

lemma step_null_unit:
  "getstring_step (pre @ 0 # 0 # rest) (int (length pre)) strings = Inr Break"
proof -
  have s4: "slice (pre @ 0 # 0 # rest) (int (length pre)) (int (length pre) + 4)
            = 0 # 0 # take 2 rest"
    using slice_at_prefix [of 4 pre] by (simp add: numeral_eq_Suc)
  have s2: "slice (pre @ 0 # 0 # rest) (int (length pre)) (int (length pre) + 2) = [0, 0]"
    using slice_at_prefix [of 2 pre] by (simp add: numeral_eq_Suc)
  show ?thesis
    unfolding getstring_step_def s4 s2 by simp
qed

lemma getstring_loop_plain:
  assumes "\<forall>u \<in> set us. plain_unit u"
  shows "getstring_loop (pre @ utf16le_units us @ [0, 0] @ post) (int (length pre)) strings
         = Some (Inr (concat strings @ map nat us))"
  using assms
proof (induction us arbitrary: pre strings)
  case Nil
  from step_null_unit [of pre post strings] show ?case
    by (simp add: utf16le_units_def getstring_loop_Break)
next
  case (Cons u us)
  let ?lo = "word_of_int u :: byte" and ?hi = "word_of_int (u div 256) :: byte"
  have raw: "pre @ utf16le_units (u # us) @ [0, 0] @ post
             = pre @ ?lo # ?hi # (utf16le_units us @ [0, 0] @ post)"
    by (simp add: utf16le_units_def)
  have raw': "pre @ utf16le_units (u # us) @ [0, 0] @ post
             = (pre @ [?lo, ?hi]) @ utf16le_units us @ [0, 0] @ post"
    by (simp add: utf16le_units_def)
  from Cons.prems have pu: "plain_unit u" and rest: "\<forall>u \<in> set us. plain_unit u" by simp_all
  have "getstring_loop (pre @ utf16le_units (u # us) @ [0, 0] @ post) (int (length pre)) strings
        = getstring_loop (pre @ utf16le_units (u # us) @ [0, 0] @ post)
            (int (length pre) + 2) (strings @ [[nat u]])"
    unfolding raw by (rule getstring_loop_Continue) (rule step_plain_unit [OF pu])
  also have "\<dots> = getstring_loop ((pre @ [?lo, ?hi]) @ utf16le_units us @ [0, 0] @ post)
            (int (length (pre @ [?lo, ?hi]))) (strings @ [[nat u]])"
    by (simp add: utf16le_units_def ac_simps)
  also have "\<dots> = Some (Inr (concat (strings @ [[nat u]]) @ map nat us))"
    by (rule Cons.IH [OF rest])
  finally show ?case by simp
qed

section \<open>The loop of \<^verbatim>\<open>getstring\<close> and the token stream\<close>

lemma unpack1_H_ref: "q = p + 2 \<Longrightarrow> unpack1 ''<H'' (slice raw p q) = u16_at raw p"
  by (simp add: unpack1_H u16_at_def bytes_at_def)

lemma unpack1_I_ref: "q = p + 4 \<Longrightarrow> unpack1 ''<I'' (slice raw p q) = u32_at raw p"
  by (simp add: unpack1_I u32_at_def bytes_at_def)

lemma u16_at_nonneg: "u16_at raw p = Inr n \<Longrightarrow> 0 \<le> n"
  by (auto simp: u16_at_def bytes_at_def le_int_nonneg split: if_splits)

lemma continue_with_simps [simp]:
  "continue_with pos strings (Inl e) = Inl e"
  "continue_with pos strings (Inr (Token sp tx)) = Inr (Continue (pos + sp) (strings @ tx))"
  by (simp_all add: continue_with_def)

lemma continue_with_bind:
  "continue_with pos strings (bind_err m f) = bind_err m (\<lambda>x. continue_with pos strings (f x))"
  by (cases m) simp_all

lemma branch_E9_ref:
  "branch_E9 raw pos strings = continue_with pos strings (branch_token raw pos)"
proof (cases "u16_at raw (pos + 22)")
  case (Inl e)
  then show ?thesis by (simp add: branch_E9_def branch_token_def unpack1_H_ref)
next
  case (Inr n1)
  show ?thesis
  proof (cases "slice raw (pos + 24 + n1) (pos + 24 + n1 + 2) = [0xFF, 0xFF]")
    case True
    with Inr show ?thesis
      by (simp add: branch_E9_def branch_token_def Let_def unpack1_H_ref text_between_def
          continue_with_bind ac_simps)
  next
    case False
    with Inr show ?thesis
      by (simp add: branch_E9_def branch_token_def Let_def unpack1_H_ref text_between_def
          continue_with_bind ac_simps)
  qed
qed

lemma choice_end_ref:
  "- 1 \<le> len \<Longrightarrow> choice_end raw p (p + len) = option_stop raw p (nat ((len + 1) div 2))"
proof (induction "nat ((len + 1) div 2)" arbitrary: p len)
  case 0
  then have "len \<le> 0" by simp
  then show ?case using 0 by (simp add: choice_end.simps [of raw p])
next
  case (Suc k)
  then have len: "1 \<le> len" by simp
  have k: "k = nat ((len - 2 + 1) div 2)" using Suc(2) by simp
  have m: "- 1 \<le> len - 2" using len by simp
  from Suc(1) [OF k m, of "p + 2"]
  have IH: "choice_end raw (p + 2) (p + len) = option_stop raw (p + 2) k"
    using k by (simp add: algebra_simps)
  from Suc(2) [symmetric] len IH show ?case
    by (simp add: choice_end.simps [of raw p] null_unit_def)
qed

lemma choices_ref:
  "choices raw n p strings =
     bind_err (ref_options raw n p) (\<lambda>(q, fs). Inr (q, strings @ fs))"
proof (induction n arbitrary: p strings)
  case 0
  then show ?case by simp
next
  case (Suc n)
  show ?case
  proof (cases "u16_at raw (p + 4)")
    case (Inl e)
    then show ?thesis by (simp add: unpack1_H_ref)
  next
    case (Inr len)
    from u16_at_nonneg [OF Inr] have "- 1 \<le> len" by simp
    from choice_end_ref [OF this, of raw "p + 8"]
    have ce: "choice_end raw (p + 8) (p + 8 + len)
              = option_stop raw (p + 8) (nat ((len + 1) div 2))" .
    show ?thesis
    proof (cases "text_between raw (p + 8) (option_stop raw (p + 8) (nat ((len + 1) div 2)))")
      case (Inl e)
      with Inr ce show ?thesis by (simp add: unpack1_H_ref text_between_def)
    next
      case s: (Inr s)
      show ?thesis
      proof (cases "ref_options raw n (p + 8 + len)")
        case (Inl e)
        with Inr s ce Suc.IH show ?thesis by (simp add: unpack1_H_ref text_between_def)
      next
        case r: (Inr r)
        obtain q fs where r': "r = (q, fs)" by (cases r)
        with Inr s ce r Suc.IH show ?thesis by (simp add: unpack1_H_ref text_between_def)
      qed
    qed
  qed
qed

lemma branch_F5_ref:
  "branch_F5 raw pos strings = continue_with pos strings (choice_token raw pos (strings = []))"
proof (cases "u32_at raw (pos + 12)")
  case (Inl e)
  then show ?thesis by (simp add: branch_F5_def choice_token_def unpack1_I_ref)
next
  case (Inr n)
  show ?thesis
  proof (cases "ref_options raw (nat n) (pos + 16 + 4 * n)")
    case (Inl e)
    with Inr show ?thesis
      by (simp add: branch_F5_def choice_token_def unpack1_I_ref choices_ref)
  next
    case r: (Inr r)
    obtain q fs where "r = (q, fs)" by (cases r)
    with Inr r show ?thesis
      by (simp add: branch_F5_def choice_token_def unpack1_I_ref choices_ref)
  qed
qed

lemma branch_F6_ref:
  "branch_F6 raw pos strings = continue_with pos strings (variable_token raw pos)"
proof -
  have e: "pos + 4 + int 8 = pos + 12" by simp
  show ?thesis
    unfolding branch_F6_def variable_token_def bytes_at_def e
    by (simp add: unpack_II format_val_def)
qed

lemma branch_F9_ref:
  "branch_F9 raw pos strings =
     continue_with pos strings
       (bind_err (u32_at raw (pos + 8)) (\<lambda>b. Inr (Token 12 [button_label b])))"
  by (simp add: branch_F9_def unpack1_I_ref continue_with_bind button_label_def)

lemma slice2_of_4: "0 \<le> pos \<Longrightarrow> slice raw pos (pos + 2) = take 2 (slice raw pos (pos + 4))"
  by (simp add: slice_nonneg nat_add_distrib)

lemma sentinel_Some:
  "sentinel raw pos = Some k \<longleftrightarrow> slice raw pos (pos + 4) = [k, 0xFF, 0xFF, 0xFF]"
  by (auto simp: sentinel_def split: list.splits if_splits)

lemma step_ref_None:
  assumes "sentinel raw pos = None"
  shows "getstring_step raw pos strings =
           (if null_unit raw pos then Inr Break
            else continue_with pos strings (ref_token raw pos (strings = [])))"
proof -
  from assms have n: "slice raw pos (pos + 4) \<noteq> [k, 0xFF, 0xFF, 0xFF]" for k
    by (simp add: sentinel_Some [symmetric])
  show ?thesis
    unfolding getstring_step_def ref_token_def assms plain_token_def null_unit_def
      text_between_def
    by (simp add: n continue_with_bind)
qed

lemma furigana_ref:
  "bind_err (unpack1 ''<H'' (slice raw (pos + 10) (pos + 12)))
     (\<lambda>byte_count. Inr (Continue (pos + 12 + byte_count) strings))
   = continue_with pos strings
       (bind_err (u16_at raw (pos + 10)) (\<lambda>n. Inr (Token (12 + n) [])))"
  by (simp add: unpack1_H_ref continue_with_bind ac_simps)

lemma step_ref_Some:
  assumes "0 \<le> pos" and "sentinel raw pos = Some k"
  shows "getstring_step raw pos strings =
           (if null_unit raw pos then Inr Break
            else continue_with pos strings (ref_token raw pos (strings = [])))"
proof -
  from assms(2) have s4: "slice raw pos (pos + 4) = [k, 0xFF, 0xFF, 0xFF]"
    by (simp add: sentinel_Some)
  with slice2_of_4 [OF assms(1), of raw] have s2: "slice raw pos (pos + 2) = [k, 0xFF]" by simp
  have nn: "\<not> null_unit raw pos" by (simp add: null_unit_def s2)
  consider (E9) "k = 0xE9" | (F1) "k = 0xF1" | (F4) "k = 0xF4" | (F5) "k = 0xF5"
    | (F6) "k = 0xF6" | (F7) "k = 0xF7" | (F9) "k = 0xF9" | (F0) "k = 0xF0"
    | (other) "k \<noteq> 0xE9" "k \<noteq> 0xF1" "k \<noteq> 0xF4" "k \<noteq> 0xF5" "k \<noteq> 0xF6" "k \<noteq> 0xF7"
        "k \<noteq> 0xF9" "k \<noteq> 0xF0"
    by blast
  then show ?thesis
  proof cases
    case E9
    then show ?thesis
      by (simp add: getstring_step_def s4 nn ref_token_def assms(2) branch_E9_ref)
  next
    case F1
    then show ?thesis
      by (simp add: getstring_step_def s4 nn ref_token_def assms(2))
  next
    case F4
    then show ?thesis
      by (simp add: getstring_step_def s4 nn ref_token_def assms(2) furigana_ref)
  next
    case F5
    then show ?thesis
      by (simp add: getstring_step_def s4 nn ref_token_def assms(2) branch_F5_ref)
  next
    case F6
    then show ?thesis
      by (simp add: getstring_step_def s4 nn ref_token_def assms(2) branch_F6_ref)
  next
    case F7
    then show ?thesis
      by (simp add: getstring_step_def s4 nn ref_token_def assms(2))
  next
    case F9
    then show ?thesis
      by (simp add: getstring_step_def s4 nn ref_token_def assms(2) branch_F9_ref)
  next
    case F0
    then show ?thesis
      by (simp add: getstring_step_def s4 nn ref_token_def assms(2))
  next
    case other
    then show ?thesis
      by (simp add: getstring_step_def s4 s2 nn ref_token_def assms(2) plain_token_def
          text_between_def continue_with_bind)
  qed
qed

lemma step_ref:
  assumes "0 \<le> pos"
  shows "getstring_step raw pos strings =
           (if null_unit raw pos then Inr Break
            else continue_with pos strings (ref_token raw pos (strings = [])))"
  using step_ref_None [of raw pos strings] step_ref_Some [OF assms, of raw _ strings]
  by (cases "sentinel raw pos") auto

lemma step_ref_null:
  "0 \<le> pos \<Longrightarrow> null_unit raw pos \<Longrightarrow> getstring_step raw pos strings = Inr Break"
  by (simp add: step_ref)

lemma step_ref_Inl:
  "0 \<le> pos \<Longrightarrow> \<not> null_unit raw pos \<Longrightarrow> ref_token raw pos (strings = []) = Inl e \<Longrightarrow>
     getstring_step raw pos strings = Inl e"
  by (simp add: step_ref)

lemma step_ref_Inr:
  "0 \<le> pos \<Longrightarrow> \<not> null_unit raw pos \<Longrightarrow> ref_token raw pos (strings = []) = Inr t \<Longrightarrow>
     getstring_step raw pos strings = Inr (Continue (pos + t_span t) (strings @ t_text t))"
  by (simp add: step_ref continue_with_def)

lemma ref_scan_sound:
  "ref_scan n raw pos strings = Some r \<Longrightarrow> 0 \<le> pos \<Longrightarrow>
     getstring_loop raw pos strings = Some r"
proof (induction n arbitrary: pos strings)
  case 0
  then show ?case by simp
next
  case (Suc n)
  show ?case
  proof (cases "null_unit raw pos")
    case True
    from Suc.prems(1) True have "r = Inr (concat strings)" by simp
    with getstring_loop_Break [OF step_ref_null [OF Suc.prems(2) True]] show ?thesis by simp
  next
    case False
    show ?thesis
    proof (cases "ref_token raw pos (strings = [])")
      case (Inl e)
      from Suc.prems(1) False Inl have "r = Inl e" by simp
      with getstring_loop_Inl [OF step_ref_Inl [OF Suc.prems(2) False Inl]] show ?thesis by simp
    next
      case (Inr t)
      note c = step_ref_Inr [OF Suc.prems(2) False Inr]
      from step_Continue_mono [OF c] Suc.prems(2) have p: "0 \<le> pos + t_span t" by simp
      from Inr False Suc.prems(1)
      have "ref_scan n raw (pos + t_span t) (strings @ t_text t) = Some r" by simp
      from Suc.IH [OF this p] getstring_loop_Continue [OF c] show ?thesis by simp
    qed
  qed
qed

lemma ref_scan_complete:
  assumes "getstring_loop raw pos strings = Some r"
  shows "0 \<le> pos \<longrightarrow> (\<exists>n. ref_scan n raw pos strings = Some r)"
proof (rule getstring_loop.raw_induct
    [where P = "\<lambda>raw pos strings r. 0 \<le> pos \<longrightarrow> (\<exists>n. ref_scan n raw pos strings = Some r)",
     OF _ assms], goal_cases)
  case (1 f raw pos strings r)
  show ?case
  proof
    assume pos: "0 \<le> pos"
    show "\<exists>n. ref_scan n raw pos strings = Some r"
    proof (cases "null_unit raw pos")
      case True
      from 1(2) step_ref_null [OF pos True, of strings]
      have "r = Inr (concat strings)" by simp
      with True have "ref_scan (Suc 0) raw pos strings = Some r" by simp
      then show ?thesis ..
    next
      case False
      show ?thesis
      proof (cases "ref_token raw pos (strings = [])")
        case (Inl e)
        from 1(2) step_ref_Inl [OF pos False Inl] have "r = Inl e" by simp
        with False Inl have "ref_scan (Suc 0) raw pos strings = Some r" by simp
        then show ?thesis ..
      next
        case (Inr t)
        note c = step_ref_Inr [OF pos False Inr]
        from step_Continue_mono [OF c] pos have p: "0 \<le> pos + t_span t" by simp
        from c 1(2) have "f raw (pos + t_span t) (strings @ t_text t) = Some r" by simp
        from 1(1) [OF this] p obtain n where
          "ref_scan n raw (pos + t_span t) (strings @ t_text t) = Some r" by blast
        with Inr False have "ref_scan (Suc n) raw pos strings = Some r" by simp
        then show ?thesis ..
      qed
    qed
  qed
qed

lemma getstring_loop_ref:
  assumes "0 \<le> pos"
  shows "getstring_loop raw pos strings = Some r \<longleftrightarrow> (\<exists>n. ref_scan n raw pos strings = Some r)"
proof
  assume "getstring_loop raw pos strings = Some r"
  from ref_scan_complete [OF this] assms show "\<exists>n. ref_scan n raw pos strings = Some r"
    by simp
next
  assume "\<exists>n. ref_scan n raw pos strings = Some r"
  then obtain n where "ref_scan n raw pos strings = Some r" ..
  from ref_scan_sound [OF this assms] show "getstring_loop raw pos strings = Some r" .
qed

lemma ex_rows_step_40: "getstring_step ex_rows_raw 40 [] = Inr (Continue 42 [[1541]])" by code_simp
lemma ex_rows_step_42: "getstring_step ex_rows_raw 42 [[1541]] = Inr (Continue 44 [[1541], [2055]])" by code_simp
lemma ex_rows_step_43: "getstring_step ex_rows_raw 43 [] = Inl UnicodeDecodeError" by code_simp
lemma ex_rows_length: "int (length ex_rows_raw) \<le> 44" by code_simp

lemma step_odd_byte:
  assumes "0 \<le> pos" and "int (length raw) = pos + 1"
  shows "getstring_step raw pos strings = Inl UnicodeDecodeError"
proof -
  from assms have l: "length (drop (nat pos) raw) = 1" by simp
  then obtain b where d: "drop (nat pos) raw = [b]"
    by (cases "drop (nat pos) raw") auto
  from assms(1) d have s4: "slice raw pos (pos + 4) = [b]" and s2: "slice raw pos (pos + 2) = [b]"
    by (simp_all add: slice_nonneg nat_add_distrib)
  show ?thesis
    unfolding getstring_step_def s4 s2 by (simp add: decode_utf16le_def)
qed

lemma decode_surrogate:
  assumes "0xD8 \<le> hi" and "hi \<le> 0xDF"
  shows "decode_utf16le [lo, hi :: byte] = Inl UnicodeDecodeError"
proof -
  from assms have h: "216 \<le> uint hi" "uint hi \<le> 223"
    by (simp_all add: word_le_def)
  have l: "0 \<le> uint lo" "uint lo < 256"
    using uint_lt2p [of lo] by simp_all
  from h l have u: "0xD800 \<le> uint lo + 256 * uint hi" "uint lo + 256 * uint hi < 0xE000"
    by linarith+
  then show ?thesis by (simp add: decode_utf16le_def)
qed

lemma step_surrogate:
  assumes "0 \<le> pos" and "slice raw pos (pos + 2) = [lo, hi]" and "0xD8 \<le> hi" and "hi \<le> 0xDF"
  shows "getstring_step raw pos strings = Inl UnicodeDecodeError"
proof -
  from assms(3,4) have hf: "hi \<noteq> 0xFF" and h0: "hi \<noteq> 0" by auto
  from assms(2) slice2_of_4 [OF assms(1), of raw]
  have t: "take 2 (slice raw pos (pos + 4)) = [lo, hi]" by simp
  have n: "slice raw pos (pos + 4) \<noteq> [k, 0xFF, 0xFF, 0xFF]" for k
  proof
    assume "slice raw pos (pos + 4) = [k, 0xFF, 0xFF, 0xFF]"
    with t hf show False by simp
  qed
  show ?thesis
    unfolding getstring_step_def assms(2)
    using hf h0 by (simp add: n decode_surrogate [OF assms(3,4)])
qed

lemma step_truncated_button:
  assumes "0 \<le> pos" and "slice raw pos (pos + 4) = [0xF9, 0xFF, 0xFF, 0xFF]"
    and "int (length raw) < pos + 12"
  shows "getstring_step raw pos strings = Inl StructError"
proof -
  from assms(1) have "slice raw (pos + 8) (pos + 12) = take 4 (drop (nat (pos + 8)) raw)"
    by (simp add: slice_nonneg nat_add_distrib)
  with assms(1,3) have "length (slice raw (pos + 8) (pos + 12)) \<noteq> 4" by simp
  then have u: "unpack1 ''<I'' (slice raw (pos + 8) (pos + 12)) = Inl StructError"
    by (simp add: unpack1_I)
  show ?thesis
    unfolding getstring_step_def assms(2) by (simp add: branch_F9_def u)
qed

text \<open>
  C4, as the code has it. \<^verbatim>\<open>getstring\<close> is not total. From an offset that is not
  negative its outcome is that of the scan of the token stream: it returns the
  concatenated fragments when some number of tokens brings the scan to a token boundary
  that holds a null code unit, the first such boundary; it raises the exception of the
  first token that raises; otherwise it does not return. From an offset at or past the
  end of the buffer it never returns: every slice is empty, an empty slice is not the
  pair of null bytes, and the position moves on by two. It returns a string only when a
  null code unit lies inside the buffer at or after the offset, and it returns the text
  of a run of code units that are neither null nor surrogates nor have the high byte
  \<open>0xFF\<close>, followed inside the buffer by a null code unit. It raises
  \<^verbatim>\<open>UnicodeDecodeError\<close> at a last byte that is alone and at a surrogate code unit, and
  \<^verbatim>\<open>struct.error\<close> at a button code that the buffer cuts short.
\<close>

theorem getstring_partial:
  "(0 \<le> offset \<longrightarrow>
      (getstring self offset = Some r
       \<longleftrightarrow> (\<exists>n. ref_scan n (scr_raw self) offset [] = Some r)))
   \<and> (int (length (scr_raw self)) \<le> offset \<longrightarrow> getstring self offset = None)
   \<and> (0 \<le> offset \<and> getstring self offset = Some (Inr s) \<longrightarrow>
        (\<exists>p. offset \<le> p \<and> p + 2 \<le> int (length (scr_raw self))
             \<and> slice (scr_raw self) p (p + 2) = [0, 0]))
   \<and> ((\<forall>u \<in> set us. plain_unit u)
        \<and> scr_raw self = pre @ utf16le_units us @ [0, 0] @ post \<longrightarrow>
        getstring self (int (length pre)) = Some (Inr (map nat us)))
   \<and> (0 \<le> offset \<and> int (length (scr_raw self)) = offset + 1 \<longrightarrow>
        getstring self offset = Some (Inl UnicodeDecodeError))
   \<and> (0 \<le> offset \<and> slice (scr_raw self) offset (offset + 2) = [lo, hi]
        \<and> 0xD8 \<le> hi \<and> hi \<le> 0xDF \<longrightarrow>
        getstring self offset = Some (Inl UnicodeDecodeError))
   \<and> (0 \<le> offset \<and> slice (scr_raw self) offset (offset + 4) = [0xF9, 0xFF, 0xFF, 0xFF]
        \<and> int (length (scr_raw self)) < offset + 12 \<longrightarrow>
        getstring self offset = Some (Inl StructError))"
proof (intro conjI impI)
  assume "0 \<le> offset"
  then show "getstring self offset = Some r
       \<longleftrightarrow> (\<exists>n. ref_scan n (scr_raw self) offset [] = Some r)"
    by (simp add: getstring_def getstring_loop_ref)
next
  assume "int (length (scr_raw self)) \<le> offset"
  then show "getstring self offset = None"
    by (simp add: getstring_def getstring_loop_past_end)
next
  assume a: "0 \<le> offset \<and> getstring self offset = Some (Inr s)"
  then have "getstring_loop (scr_raw self) offset [] = Some (Inr s)"
    by (simp add: getstring_def)
  from getstring_loop_returns_at_null [OF this]
  obtain p where p: "offset \<le> p" "slice (scr_raw self) p (p + 2) = [0, 0]" by blast
  from p a have "0 \<le> p" by simp
  from null_unit_in_buffer [OF p(2) this] p
  show "\<exists>p. offset \<le> p \<and> p + 2 \<le> int (length (scr_raw self))
             \<and> slice (scr_raw self) p (p + 2) = [0, 0]" by blast
next
  assume a: "(\<forall>u \<in> set us. plain_unit u)
        \<and> scr_raw self = pre @ utf16le_units us @ [0, 0] @ post"
  then have "\<forall>u \<in> set us. plain_unit u" by simp
  from getstring_loop_plain [OF this, of pre post "[]"] a
  show "getstring self (int (length pre)) = Some (Inr (map nat us))"
    by (simp add: getstring_def)
next
  assume "0 \<le> offset \<and> int (length (scr_raw self)) = offset + 1"
  then have "getstring_step (scr_raw self) offset [] = Inl UnicodeDecodeError"
    by (intro step_odd_byte) simp_all
  then show "getstring self offset = Some (Inl UnicodeDecodeError)"
    by (simp add: getstring_def getstring_loop_Inl)
next
  assume "0 \<le> offset \<and> slice (scr_raw self) offset (offset + 2) = [lo, hi]
        \<and> 0xD8 \<le> hi \<and> hi \<le> 0xDF"
  then have "getstring_step (scr_raw self) offset [] = Inl UnicodeDecodeError"
    by (intro step_surrogate [of offset "scr_raw self" lo hi]) simp_all
  then show "getstring self offset = Some (Inl UnicodeDecodeError)"
    by (simp add: getstring_def getstring_loop_Inl)
next
  assume "0 \<le> offset \<and> slice (scr_raw self) offset (offset + 4) = [0xF9, 0xFF, 0xFF, 0xFF]
        \<and> int (length (scr_raw self)) < offset + 12"
  then have "getstring_step (scr_raw self) offset [] = Inl StructError"
    by (intro step_truncated_button) simp_all
  then show "getstring self offset = Some (Inl StructError)"
    by (simp add: getstring_def getstring_loop_Inl)
qed

text \<open>
  In \<open>ex_markup\<close> four tokens (a line break, the text \<^verbatim>\<open>A\<close>, the button 0, whose label is
  \<^verbatim>\<open>A\<close>) lead to the null code unit at offset 22, and the text after it is not read. In
  \<open>ex_text\<close>, of 12 bytes, the text at offset 4 is returned, its terminator lies at
  offset 8, and the call at offset 12 does not return. In \<open>ex_truncated\<close> the button code
  at offset 2 is cut short and the byte at offset 12 is alone; in \<open>ex_surrogate\<close> the
  code unit at offset 2 is a surrogate.
\<close>

theorem getstring_partial_witness:
  "ref_scan 4 (scr_raw ex_markup) 0 [] = Some (Inr [0x5C, 0x6E, 0x41, 0x41])
   \<and> getstring ex_markup 0 = Some (Inr [0x5C, 0x6E, 0x41, 0x41])
   \<and> int (length (scr_raw ex_text)) \<le> 12
   \<and> getstring ex_text 12 = None
   \<and> list_all plain_unit [0x41, 0x42]
   \<and> scr_raw ex_text = [1, 2, 3, 4] @ utf16le_units [0x41, 0x42] @ [0, 0] @ [5, 6]
   \<and> getstring ex_text 4 = Some (Inr [0x41, 0x42])
   \<and> (\<exists>p. 4 \<le> p \<and> p + 2 \<le> int (length (scr_raw ex_text))
          \<and> slice (scr_raw ex_text) p (p + 2) = [0, 0])
   \<and> int (length (scr_raw ex_truncated)) = 12 + 1
   \<and> getstring ex_truncated 12 = Some (Inl UnicodeDecodeError)
   \<and> slice (scr_raw ex_surrogate) 2 (2 + 2) = [0x00, 0xD8]
   \<and> getstring ex_surrogate 2 = Some (Inl UnicodeDecodeError)
   \<and> slice (scr_raw ex_truncated) 2 (2 + 4) = [0xF9, 0xFF, 0xFF, 0xFF]
   \<and> int (length (scr_raw ex_truncated)) < 2 + 12
   \<and> getstring ex_truncated 2 = Some (Inl StructError)"
proof -
  have m: "ref_scan 4 (scr_raw ex_markup) 0 [] = Some (Inr [0x5C, 0x6E, 0x41, 0x41])"
    by code_simp
  from getstring_partial [where self = ex_markup and offset = 0
      and r = "Inr [0x5C, 0x6E, 0x41, 0x41]"] m
  have m': "getstring ex_markup 0 = Some (Inr [0x5C, 0x6E, 0x41, 0x41])" by blast
  have a: "int (length (scr_raw ex_text)) \<le> 12" by code_simp
  have b: "list_all plain_unit [0x41, 0x42]" by code_simp
  then have b': "\<forall>u \<in> set [0x41, 0x42]. plain_unit u" by (simp add: list_all_iff)
  have c: "scr_raw ex_text = [1, 2, 3, 4] @ utf16le_units [0x41, 0x42] @ [0, 0] @ [5, 6]"
    by (simp add: ex_text_def)
  from getstring_partial [where self = ex_text and offset = 12] a
  have d: "getstring ex_text 12 = None" by blast
  from getstring_partial [where self = ex_text and us = "[0x41, 0x42]"
      and pre = "[1, 2, 3, 4]" and post = "[5, 6]"] b' c
  have e: "getstring ex_text 4 = Some (Inr [0x41, 0x42])" by simp
  from getstring_partial [where self = ex_text and offset = 4 and s = "[0x41, 0x42]"] e
  have f: "\<exists>p. 4 \<le> p \<and> p + 2 \<le> int (length (scr_raw ex_text))
          \<and> slice (scr_raw ex_text) p (p + 2) = [0, 0]" by simp
  have g: "int (length (scr_raw ex_truncated)) = 12 + 1" by code_simp
  from getstring_partial [where self = ex_truncated and offset = 12] g
  have g': "getstring ex_truncated 12 = Some (Inl UnicodeDecodeError)" by simp
  have h: "slice (scr_raw ex_surrogate) 2 (2 + 2) = [0x00, 0xD8]" by code_simp
  from getstring_partial [where self = ex_surrogate and offset = 2 and lo = 0 and hi = "0xD8"] h
  have h': "getstring ex_surrogate 2 = Some (Inl UnicodeDecodeError)" by simp
  have i: "slice (scr_raw ex_truncated) 2 (2 + 4) = [0xF9, 0xFF, 0xFF, 0xFF]" by code_simp
  have j: "int (length (scr_raw ex_truncated)) < 2 + 12" by code_simp
  from getstring_partial [where self = ex_truncated and offset = 2] i j
  have i': "getstring ex_truncated 2 = Some (Inl StructError)" by simp
  from m m' a b c d e f g g' h h' i j i' show ?thesis by blast
qed

text \<open>
  C4, as stated, fails on the container \<open>ex_rows_raw\<close>, which ends without a null code
  unit: from offset 40 the loop passes the end of the buffer and never returns, and from
  offset 43 the last byte alone is decoded, which raises \<^verbatim>\<open>UnicodeDecodeError\<close>.
\<close>

theorem getstring_not_total_counterexample:
  "getstring ex_rows 40 = None \<and> getstring ex_rows 43 = Some (Inl UnicodeDecodeError)"
proof -
  have r: "scr_raw ex_rows = ex_rows_raw" by (simp add: ex_rows_def)
  have "getstring ex_rows 40 = getstring_loop ex_rows_raw 44 [[1541], [2055]]"
    by (simp add: getstring_def r getstring_loop_Continue [OF ex_rows_step_40] getstring_loop_Continue [OF ex_rows_step_42])
  also have "\<dots> = None" by (rule getstring_loop_past_end [OF ex_rows_length])
  finally have a: "getstring ex_rows 40 = None" .
  have b: "getstring ex_rows 43 = Some (Inl UnicodeDecodeError)"
    by (simp add: getstring_def r getstring_loop_Inl [OF ex_rows_step_43])
  from a b show ?thesis by simp
qed


end
